theory Spec2Isabelle
  imports Complex_Main
begin

section \<open>Time\<close>

text \<open>
  A Python \<^verbatim>\<open>datetime\<close> has microsecond resolution. A timestamp is modelled as the
  number of microseconds since midnight of day 0, a \<^verbatim>\<open>timedelta\<close> as a difference of
  two timestamps. The floats that the source computes from them (minutes, hours) are
  modelled as exact rationals.
\<close>

type_synonym datetime = int

definition hour :: "datetime \<Rightarrow> int" where
  "hour t = (t div 3600000000) mod 24"

definition minute :: "datetime \<Rightarrow> int" where
  "minute t = (t div 60000000) mod 60"

definition total_seconds :: "int \<Rightarrow> rat" where
  "total_seconds d = of_int d / 1000000"

section \<open>Queue.py: QueueServer\<close>

text \<open>
  Visitors are Python objects compared by identity; a queue stores references to them.
  A reference is a natural number.
\<close>

type_synonym vref = nat

record QueueServer =
  server_queue :: "(vref \<times> datetime) list"
  active_hours :: rat
  waiting_times :: "rat list"
  total_queue_length_time :: rat
  queue_lengths :: "nat list"
  queue_change_times :: "datetime list"
  daily_avg_queue_lengths :: "rat list"
  daily_avg_waiting_times :: "rat list"

text \<open>\<^verbatim>\<open>QueueServer.__init__\<close>\<close>

definition QueueServer_init :: QueueServer where
  "QueueServer_init =
     \<lparr> server_queue = [], active_hours = 10, waiting_times = [],
       total_queue_length_time = 0, queue_lengths = [0], queue_change_times = [],
       daily_avg_queue_lengths = [], daily_avg_waiting_times = [] \<rparr>"

text \<open>\<^verbatim>\<open>QueueServer.size\<close>, also \<^verbatim>\<open>__len__\<close>; \<^verbatim>\<open>__bool__\<close> is \<open>0 < size q\<close>.\<close>

definition qsize :: "QueueServer \<Rightarrow> nat" where
  "qsize q = length (server_queue q)"

text \<open>\<^verbatim>\<open>QueueServer.__iter__\<close>: the visitors in queue order.\<close>

definition visitors :: "QueueServer \<Rightarrow> vref list" where
  "visitors q = map fst (server_queue q)"

text \<open>
  \<^verbatim>\<open>QueueServer.record_queue_length\<close>. Both lists are non-empty in the guard of the
  source, so \<open>last\<close> is read only where it is defined.
\<close>

definition record_queue_length :: "datetime \<Rightarrow> QueueServer \<Rightarrow> QueueServer" where
  "record_queue_length current_time q =
     (let q1 = (if queue_lengths q \<noteq> [] \<and> queue_change_times q \<noteq> []
                then let last_time = last (queue_change_times q);
                         duration_hours = total_seconds (current_time - last_time) / 3600
                     in q\<lparr>total_queue_length_time :=
                            total_queue_length_time q
                              + of_nat (last (queue_lengths q)) * duration_hours\<rparr>
                else q)
      in q1\<lparr>queue_change_times := queue_change_times q1 @ [current_time],
            queue_lengths := queue_lengths q1 @ [qsize q1]\<rparr>)"

text \<open>\<^verbatim>\<open>QueueServer.add\<close>\<close>

definition add :: "vref \<Rightarrow> datetime \<Rightarrow> QueueServer \<Rightarrow> QueueServer" where
  "add visitor arrival_time q =
     record_queue_length arrival_time
       (q\<lparr>server_queue := server_queue q @ [(visitor, arrival_time)]\<rparr>)"

text \<open>
  \<^verbatim>\<open>QueueServer.insert\<close>. Python's \<^verbatim>\<open>list.insert\<close> with an index beyond the end
  appends, as \<open>take\<close> and \<open>drop\<close> do. Every caller in the repository passes a
  timestamp, so the branch \<^verbatim>\<open>time is None\<close> is not taken and the time is not optional
  here.
\<close>

definition insert_at :: "nat \<Rightarrow> vref \<Rightarrow> datetime \<Rightarrow> QueueServer \<Rightarrow> QueueServer" where
  "insert_at index visitor time q =
     record_queue_length time
       (q\<lparr>server_queue :=
            take index (server_queue q) @ [(visitor, time)] @ drop index (server_queue q)\<rparr>)"

text \<open>\<^verbatim>\<open>QueueServer.remove\<close>: the statistics first, then the first entry of the visitor.\<close>

fun remove_first :: "vref \<Rightarrow> (vref \<times> datetime) list \<Rightarrow> (vref \<times> datetime) list" where
  "remove_first visitor [] = []"
| "remove_first visitor ((v, t) # rest) =
     (if v = visitor then rest else (v, t) # remove_first visitor rest)"

definition remove_visitor :: "vref \<Rightarrow> datetime \<Rightarrow> QueueServer \<Rightarrow> QueueServer" where
  "remove_visitor visitor current_time q =
     (let q1 = record_queue_length current_time q
      in q1\<lparr>server_queue := remove_first visitor (server_queue q1)\<rparr>)"

text \<open>
  \<^verbatim>\<open>QueueServer.pop\<close>, always called with a removing time in the repository. The
  result \<^verbatim>\<open>(None, None)\<close> on an empty queue is \<open>None\<close>.
\<close>

definition pop :: "datetime \<Rightarrow> QueueServer \<Rightarrow> (vref \<times> datetime) option \<times> QueueServer" where
  "pop removing_time q =
     (case server_queue q of
        [] \<Rightarrow> (None, q)
      | extracted # rest \<Rightarrow>
          (let q1 = record_queue_length removing_time (q\<lparr>server_queue := rest\<rparr>);
               wait_duration = total_seconds (removing_time - snd extracted) / 60
           in (Some extracted, q1\<lparr>waiting_times := waiting_times q1 @ [wait_duration]\<rparr>)))"

text \<open>The waiting time in minutes that \<^verbatim>\<open>pop\<close> records for a queue entry.\<close>

definition wait_minutes :: "datetime \<Rightarrow> vref \<times> datetime \<Rightarrow> rat" where
  "wait_minutes removing_time e = total_seconds (removing_time - snd e) / 60"

text \<open>\<^verbatim>\<open>numpy.mean\<close> of a non-empty list.\<close>

definition mean :: "rat list \<Rightarrow> rat" where
  "mean xs = sum_list xs / of_nat (length xs)"

text \<open>\<^verbatim>\<open>QueueServer.calc_daily_statistics\<close>\<close>

definition calc_daily_statistics :: "QueueServer \<Rightarrow> QueueServer" where
  "calc_daily_statistics q =
     (let daily_avg_length =
            (if active_hours q > 0 then total_queue_length_time q / active_hours q else 0);
          daily_avg_wait = (if waiting_times q \<noteq> [] then mean (waiting_times q) else 0)
      in q\<lparr>daily_avg_queue_lengths := daily_avg_queue_lengths q @ [daily_avg_length],
           daily_avg_waiting_times := daily_avg_waiting_times q @ [daily_avg_wait],
           total_queue_length_time := 0,
           queue_change_times := [],
           queue_lengths := [0],
           waiting_times := []\<rparr>)"

section \<open>entities.py: visitors\<close>

text \<open>
  The four visitor classes. A \<^verbatim>\<open>SubGroup\<close> holds a reference to its parent family.
  The attributes are those the functions below read or write: \<^verbatim>\<open>kids_ages\<close> and
  \<^verbatim>\<open>active_subgroups_count\<close> belong to a \<^verbatim>\<open>Family\<close>, \<^verbatim>\<open>min_age\<close> to the other
  classes; \<^verbatim>\<open>is_shared_tube\<close> and \<^verbatim>\<open>tube_partner\<close> are set by
  \<^verbatim>\<open>Pipes_River.process_entry\<close> and absent before (\<^verbatim>\<open>hasattr\<close> fails), which is
  \<open>False\<close> and \<open>None\<close> here. A visited facility is recorded by its index in
  \<^verbatim>\<open>Simulation.facilities\<close>. Ratings and ages are floats, modelled as rationals.
\<close>

datatype vkind = Family | SubGroup vref | TeenGroup | SingleVisitor

record visitor =
  kind :: vkind
  group_size :: nat
  rating :: rat
  has_express_pass :: bool
  kids_ages :: "rat list"
  min_age :: rat
  visited_facilities :: "nat list"
  is_shared_tube :: bool
  tube_partner :: "vref option"
  active_subgroups_count :: int

text \<open>The objects of a run: what each reference points to.\<close>

type_synonym store = "vref \<Rightarrow> visitor"

section \<open>facilities.py: Facility\<close>

record Facility =
  name :: string
  capacity :: nat
  age_limit :: nat
  adrenalin_level :: nat
  queue_regular :: QueueServer
  queue_express :: QueueServer
  users_in_service :: "vref list"

text \<open>\<^verbatim>\<open>sum(v.group_size for v in ...)\<close>\<close>

definition headcount :: "store \<Rightarrow> vref list \<Rightarrow> nat" where
  "headcount st vs = sum_list (map (\<lambda>v. group_size (st v)) vs)"

section \<open>facilities.py: Big_Pipes_Slide and Small_Pipes_Slide\<close>

text \<open>
  The two classes have the same methods, word for word, and differ in the constants of
  \<^verbatim>\<open>__init__\<close>: tube size 8 and 3.
\<close>

record Pipes_Slide = Facility +
  tube_size :: nat

definition Big_Pipes_Slide_init :: Pipes_Slide where
  "Big_Pipes_Slide_init =
     \<lparr> name = ''Big Pipes Slide'', capacity = 8, age_limit = 0, adrenalin_level = 2,
       queue_regular = QueueServer_init, queue_express = QueueServer_init,
       users_in_service = [], tube_size = 8 \<rparr>"

definition Small_Pipes_Slide_init :: Pipes_Slide where
  "Small_Pipes_Slide_init =
     \<lparr> name = ''Small Pipes Slide'', capacity = 3, age_limit = 12, adrenalin_level = 4,
       queue_regular = QueueServer_init, queue_express = QueueServer_init,
       users_in_service = [], tube_size = 3 \<rparr>"

text \<open>\<^verbatim>\<open>can_enter\<close>: only when nobody is sliding.\<close>

definition slide_can_enter :: "Pipes_Slide \<Rightarrow> bool" where
  "slide_can_enter f = (length (users_in_service f) = 0)"

text \<open>
  One of the two \<^verbatim>\<open>while\<close> loops of \<^verbatim>\<open>get_next_batch\<close> (step 1 on the express
  queue, step 2 on the regular queue; the loops are the same). The state of the loop is
  the queue, the popped pairs \<^verbatim>\<open>temp\<close>, the batch and its size. The first component of
  the result says whether the loop left through \<^verbatim>\<open>return batch\<close>.
\<close>

function fill_batch ::
  "store \<Rightarrow> nat \<Rightarrow> datetime \<Rightarrow> QueueServer \<Rightarrow> (vref \<times> datetime) list \<Rightarrow> vref list \<Rightarrow> nat
     \<Rightarrow> bool \<times> QueueServer \<times> (vref \<times> datetime) list \<times> vref list \<times> nat" where
  "fill_batch st tsize current_time q temp batch batch_size =
     (case server_queue q of
        [] \<Rightarrow> (False, q, temp, batch, batch_size)
      | (visitor, arrived) # rest \<Rightarrow>
          if batch_size < tsize then
            if batch_size + group_size (st visitor) \<le> tsize then
              (let q1 = snd (pop current_time q);
                   temp1 = temp @ [(visitor, arrived)];
                   batch1 = batch @ [visitor];
                   batch_size1 = batch_size + group_size (st visitor)
               in if batch_size1 = tsize then (True, q1, temp1, batch1, batch_size1)
                  else fill_batch st tsize current_time q1 temp1 batch1 batch_size1)
            else (False, q, temp, batch, batch_size)
          else (False, q, temp, batch, batch_size))"
  by pat_completeness auto
termination
  by (relation "measure (\<lambda>(st, tsize, current_time, q, temp, batch, batch_size). qsize q)")
     (auto simp: pop_def qsize_def record_queue_length_def Let_def)

declare fill_batch.simps [simp del]

text \<open>The rollback loops: \<^verbatim>\<open>for v, t in reversed(temp): queue.insert(0, v, t)\<close>.\<close>

definition rollback :: "(vref \<times> datetime) list \<Rightarrow> QueueServer \<Rightarrow> QueueServer" where
  "rollback temp q = foldl (\<lambda>q (v, t). insert_at 0 v t q) q (rev temp)"

text \<open>\<^verbatim>\<open>total_in_queue\<close> of \<^verbatim>\<open>get_next_batch\<close>.\<close>

definition total_in_queue :: "store \<Rightarrow> Pipes_Slide \<Rightarrow> nat" where
  "total_in_queue st f =
     headcount st (visitors (queue_express f)) + headcount st (visitors (queue_regular f))"

text \<open>\<^verbatim>\<open>get_next_batch\<close>: the batch returned and the facility after the call.\<close>

definition get_next_batch :: "store \<Rightarrow> datetime \<Rightarrow> Pipes_Slide \<Rightarrow> vref list \<times> Pipes_Slide" where
  "get_next_batch st current_time f =
     (if total_in_queue st f < tube_size f then ([], f)
      else
        case fill_batch st (tube_size f) current_time (queue_express f) [] [] 0 of
          (returned1, qe, temp_express, batch1, batch_size1) \<Rightarrow>
            if returned1 then (batch1, f\<lparr>queue_express := qe\<rparr>)
            else
              case fill_batch st (tube_size f) current_time (queue_regular f) []
                     batch1 batch_size1 of
                (returned2, qr, temp_regular, batch2, batch_size2) \<Rightarrow>
                  if returned2 then (batch2, f\<lparr>queue_express := qe, queue_regular := qr\<rparr>)
                  else ([], f\<lparr>queue_express := rollback temp_express qe,
                              queue_regular := rollback temp_regular qr\<rparr>))"

section \<open>facilities.py: Snorkel_Tour\<close>

text \<open>
  The service durations are the floats that the samplers return, modelled as reals.
  \<^verbatim>\<open>timedelta(minutes=d)\<close> rounds to a whole number of microseconds.
\<close>

definition timedelta_minutes :: "real \<Rightarrow> int" where
  "timedelta_minutes d = round (d * 60000000)"

text \<open>
  An \<^verbatim>\<open>EndFacilityEvent(time, visitor, facility, instructor_idx)\<close> that a facility asks
  the scheduler to add: the time, the visitor and the instructor index.
\<close>

type_synonym end_facility = "datetime \<times> vref \<times> nat option"

record instructor_state =
  available :: bool
  on_tour :: bool
  on_break :: bool
  on_lunch :: bool
  finish_time :: real

record Snorkel_Tour = Facility +
  num_instructors :: nat
  tour_capacity :: nat
  instructor_states :: "instructor_state list"

definition Snorkel_Tour_init :: Snorkel_Tour where
  "Snorkel_Tour_init =
     \<lparr> name = ''Snorkel Tour'', capacity = 30, age_limit = 6, adrenalin_level = 3,
       queue_regular = QueueServer_init, queue_express = QueueServer_init,
       users_in_service = [], num_instructors = 2, tour_capacity = 30,
       instructor_states =
         replicate 2 \<lparr> available = True, on_tour = False, on_break = False,
                       on_lunch = False, finish_time = 0 \<rparr> \<rparr>"

text \<open>\<^verbatim>\<open>current_time.hour * 60 + current_time.minute\<close>\<close>

definition current_minutes :: "datetime \<Rightarrow> int" where
  "current_minutes current_time = hour current_time * 60 + minute current_time"

text \<open>The \<^verbatim>\<open>for i, state in enumerate(...)\<close> loop of \<^verbatim>\<open>get_available_instructor\<close>.\<close>

fun find_instructor :: "int \<Rightarrow> nat \<Rightarrow> instructor_state list \<Rightarrow> nat option" where
  "find_instructor cm i [] = None"
| "find_instructor cm i (state # states) =
     (if available state \<and> finish_time state \<le> of_int cm then Some i
      else find_instructor cm (Suc i) states)"

definition get_available_instructor :: "datetime \<Rightarrow> Snorkel_Tour \<Rightarrow> nat option" where
  "get_available_instructor current_time f =
     (let cm = current_minutes current_time
      in if 12 * 60 + 20 \<le> cm \<and> cm < 14 * 60 then None
         else find_instructor cm 0 (instructor_states f))"

text \<open>
  \<^verbatim>\<open>start_tour\<close>, \<^verbatim>\<open>finish_tour\<close>, \<^verbatim>\<open>finish_break\<close>, \<^verbatim>\<open>finish_lunch\<close>. The index comes
  from \<^verbatim>\<open>get_available_instructor\<close> or from the event that carried it, so it is in
  range.
\<close>

definition start_tour :: "nat \<Rightarrow> datetime \<Rightarrow> real \<Rightarrow> Snorkel_Tour \<Rightarrow> Snorkel_Tour" where
  "start_tour instructor_idx current_time tour_duration f =
     f\<lparr>instructor_states :=
         (instructor_states f)
           [instructor_idx :=
              (instructor_states f ! instructor_idx)
                \<lparr>available := False, on_tour := True,
                  finish_time := of_int (current_minutes current_time) + tour_duration\<rparr>]\<rparr>"

definition finish_tour :: "nat \<Rightarrow> datetime \<Rightarrow> Snorkel_Tour \<Rightarrow> Snorkel_Tour" where
  "finish_tour instructor_idx current_time f =
     f\<lparr>instructor_states :=
         (instructor_states f)
           [instructor_idx :=
              (instructor_states f ! instructor_idx)
                \<lparr>on_tour := False, on_break := True,
                  finish_time := of_int (current_minutes current_time) + 30\<rparr>]\<rparr>"

definition finish_break :: "nat \<Rightarrow> datetime \<Rightarrow> Snorkel_Tour \<Rightarrow> bool \<times> Snorkel_Tour" where
  "finish_break instructor_idx current_time f =
     (let s1 = (instructor_states f ! instructor_idx)\<lparr>on_break := False\<rparr>
      in if 13 \<le> hour current_time \<and> hour current_time < 14
         then let cm = current_minutes current_time;
                  remaining_lunch_time = 14 * 60 - cm
              in (True,
                  f\<lparr>instructor_states :=
                      (instructor_states f)
                        [instructor_idx :=
                           s1\<lparr>on_lunch := True,
                              finish_time := of_int (cm + remaining_lunch_time)\<rparr>]\<rparr>)
         else (False,
               f\<lparr>instructor_states :=
                   (instructor_states f)[instructor_idx := s1\<lparr>available := True\<rparr>]\<rparr>))"

definition finish_lunch :: "nat \<Rightarrow> Snorkel_Tour \<Rightarrow> Snorkel_Tour" where
  "finish_lunch instructor_idx f =
     f\<lparr>instructor_states :=
         (instructor_states f)
           [instructor_idx :=
              (instructor_states f ! instructor_idx)\<lparr>on_lunch := False, available := True\<rparr>]\<rparr>"

text \<open>
  Simulation.py, \<^verbatim>\<open>try_start_facility\<close>, Snorkel Tour branch: the \<^verbatim>\<open>while\<close> loop that
  fills a tour. A popped visitor is an object, hence true in \<^verbatim>\<open>if visitor\<close>.
\<close>

function fill_tour ::
  "store \<Rightarrow> datetime \<Rightarrow> Snorkel_Tour \<Rightarrow> vref list \<Rightarrow> nat \<Rightarrow> Snorkel_Tour \<times> vref list \<times> nat" where
  "fill_tour st current_time f tour_group tour_size =
     (if tour_size < tour_capacity f
         \<and> (0 < qsize (queue_express f) \<or> 0 < qsize (queue_regular f))
      then
        case server_queue (queue_express f) of
          (next_visitor, arrived) # rest \<Rightarrow>
            if tour_size + group_size (st next_visitor) \<le> tour_capacity f
            then fill_tour st current_time
                   (f\<lparr>queue_express := snd (pop current_time (queue_express f))\<rparr>)
                   (tour_group @ [next_visitor]) (tour_size + group_size (st next_visitor))
            else (f, tour_group, tour_size)
        | [] \<Rightarrow>
            (case server_queue (queue_regular f) of
               (next_visitor, arrived) # rest \<Rightarrow>
                 if tour_size + group_size (st next_visitor) \<le> tour_capacity f
                 then fill_tour st current_time
                        (f\<lparr>queue_regular := snd (pop current_time (queue_regular f))\<rparr>)
                        (tour_group @ [next_visitor])
                        (tour_size + group_size (st next_visitor))
                 else (f, tour_group, tour_size)
             | [] \<Rightarrow> (f, tour_group, tour_size))
      else (f, tour_group, tour_size))"
  by pat_completeness auto
termination
  by (relation "measure (\<lambda>(st, current_time, f, tour_group, tour_size).
                   qsize (queue_express f) + qsize (queue_regular f))")
     (auto simp: pop_def qsize_def record_queue_length_def Let_def)

declare fill_tour.simps [simp del]

text \<open>
  The Snorkel Tour branch. \<^verbatim>\<open>duration\<close> is the value that \<^verbatim>\<open>get_service_duration\<close>
  returns when the branch samples it. The result is the facility and the events added.
\<close>

definition try_start_snorkel ::
  "store \<Rightarrow> datetime \<Rightarrow> real \<Rightarrow> Snorkel_Tour \<Rightarrow> Snorkel_Tour \<times> end_facility list" where
  "try_start_snorkel st current_time duration f =
     (case get_available_instructor current_time f of
        None \<Rightarrow> (f, [])
      | Some instructor_idx \<Rightarrow>
          if 0 < qsize (queue_express f) \<or> 0 < qsize (queue_regular f) then
            case fill_tour st current_time f [] 0 of
              (f1, tour_group, tour_size) \<Rightarrow>
                if tour_group \<noteq> [] then
                  (let f2 = start_tour instructor_idx current_time duration f1
                   in (f2\<lparr>users_in_service := users_in_service f2 @ tour_group\<rparr>,
                       map (\<lambda>visitor. (current_time + timedelta_minutes duration, visitor,
                                        Some instructor_idx))
                         tour_group))
                else (f1, [])
          else (f, []))"

section \<open>facilities.py: Pipes_River\<close>

record Pipes_River = Facility +
  people_per_tube :: nat
  total_tubes :: int
  occupied_tubes :: int

definition Pipes_River_init :: Pipes_River where
  "Pipes_River_init =
     \<lparr> name = ''Pipes River'', capacity = 120, age_limit = 0, adrenalin_level = 1,
       queue_regular = QueueServer_init, queue_express = QueueServer_init,
       users_in_service = [], people_per_tube = 2, total_tubes = 60, occupied_tubes = 0 \<rparr>"

text \<open>\<^verbatim>\<open>math.ceil(n / self.people_per_tube)\<close>\<close>

definition tubes_for :: "Pipes_River \<Rightarrow> nat \<Rightarrow> int" where
  "tubes_for f n = \<lceil>(of_nat n :: rat) / of_nat (people_per_tube f)\<rceil>"

text \<open>\<^verbatim>\<open>release_tubes\<close>\<close>

definition release_tubes :: "store \<Rightarrow> vref \<Rightarrow> Pipes_River \<Rightarrow> Pipes_River" where
  "release_tubes st visitor f =
     (let f1 =
        (if is_shared_tube (st visitor) then
           case tube_partner (st visitor) of
             Some partner \<Rightarrow>
               if partner \<notin> set (users_in_service f) then
                 (let total_size = group_size (st visitor) + group_size (st partner);
                      tubes_to_release = tubes_for f total_size
                  in f\<lparr>occupied_tubes := occupied_tubes f - tubes_to_release\<rparr>)
               else f
           | None \<Rightarrow> f
         else
           (let tubes_to_release = tubes_for f (group_size (st visitor))
            in f\<lparr>occupied_tubes := occupied_tubes f - tubes_to_release\<rparr>))
      in f1\<lparr>occupied_tubes := max 0 (occupied_tubes f1)\<rparr>)"

text \<open>
  Event.py, \<^verbatim>\<open>EndFacilityEvent.handle\<close>, the part that acts on a Pipes River: the
  visitor is removed from the in-service list (\<^verbatim>\<open>list.remove\<close> takes the first
  occurrence, and the source calls it only when there is one), then the tubes are
  released.
\<close>

definition end_facility_river :: "store \<Rightarrow> vref \<Rightarrow> Pipes_River \<Rightarrow> Pipes_River" where
  "end_facility_river st visitor f =
     release_tubes st visitor
       (if visitor \<in> set (users_in_service f)
        then f\<lparr>users_in_service := remove1 visitor (users_in_service f)\<rparr> else f)"

section \<open>sampling_algorithms.py\<close>

text \<open>
  The samplers read the global generator of the \<^verbatim>\<open>random\<close> module. The values that
  successive calls of \<^verbatim>\<open>random.random()\<close> return, each in \<open>[0, 1)\<close>, are a sequence
  \<open>us\<close>; a sampler reads it from position \<open>n\<close> on and returns its value with the next
  position. The floats are modelled as reals. \<^verbatim>\<open>math.log\<close> of a number that is not
  positive and \<^verbatim>\<open>math.sqrt\<close> of a negative number raise \<^verbatim>\<open>ValueError\<close>.
\<close>

datatype py_error = ValueError

type_synonym draws = "nat \<Rightarrow> real"

definition sample_uniform :: "real \<Rightarrow> real \<Rightarrow> draws \<Rightarrow> nat \<Rightarrow> real \<times> nat" where
  "sample_uniform a b us n = (a + (b - a) * us n, Suc n)"

definition sample_normal :: "real \<Rightarrow> real \<Rightarrow> draws \<Rightarrow> nat \<Rightarrow> py_error + real \<times> nat" where
  "sample_normal mu sigma us n =
     (case sample_uniform 0 1 us n of
        (u1, n1) \<Rightarrow>
          case sample_uniform 0 1 us n1 of
            (u2, n2) \<Rightarrow>
              if u1 \<le> 0 then Inl ValueError
              else if - 2 * ln u1 < 0 then Inl ValueError
              else let z = sqrt (- 2 * ln u1) * cos (2 * pi * u2)
                   in Inr (mu + sigma * z, n2))"

definition sample_big_pipes_slide_duration :: "draws \<Rightarrow> nat \<Rightarrow> py_error + real \<times> nat" where
  "sample_big_pipes_slide_duration us n =
     (let mu = 4.8; sigma = 1.8322 in sample_normal mu sigma us n)"

text \<open>Two sequences of draws: \<open>1/4096\<close> then \<open>1/2\<close> for ever, and \<open>1/2\<close> for ever.\<close>

definition low_draws :: draws where
  "low_draws n = (if n = 0 then 1 / 4096 else 1 / 2)"

definition mid_draws :: draws where
  "mid_draws n = 1 / 2"


section \<open>Event.py: events\<close>

text \<open>
  The event classes with their payloads. A facility or a restaurant is given by its
  index in \<^verbatim>\<open>Simulation.facilities\<close> or \<^verbatim>\<open>Simulation.restaurants\<close>. \<^verbatim>\<open>obj_id\<close> is
  \<^verbatim>\<open>id(self)\<close>: the address of the event object, which the allocator chooses.
\<close>

datatype event_kind =
    FamilyArrivalEvent
  | TeensGroupArrivalEvent
  | SingleGroupArrivalEvent
  | EndReceptionEvent vref nat
  | ArriveAtFacilityEvent vref nat
  | EndFacilityEvent vref nat "nat option"
  | AbandonmentEvent vref nat
  | ArriveAtRestaurantEvent vref nat
  | EndRestaurantServiceEvent vref nat nat
  | EndMealEvent vref
  | InstructorBreakEndEvent nat nat
  | InstructorLunchEndEvent nat nat
  | VisitorDepartureEvent vref
  | EndOfDayEvent

record event =
  time :: datetime
  obj_id :: nat
  what :: event_kind

text \<open>\<^verbatim>\<open>Event.__lt__\<close>\<close>

definition event_lt :: "event \<Rightarrow> event \<Rightarrow> bool" where
  "event_lt self other =
     (if time self = time other then obj_id self < obj_id other
      else time self < time other)"

section \<open>The event queue: heapq on a list of events\<close>

text \<open>
  \<^verbatim>\<open>Simulation.add_event\<close> is \<^verbatim>\<open>heapq.heappush\<close> and the run loop takes the next event
  with \<^verbatim>\<open>heapq.heappop\<close>; both compare events with \<^verbatim>\<open>__lt__\<close>. The functions follow
  \<^verbatim>\<open>heapq.py\<close> of the standard library: \<^verbatim>\<open>_siftdown\<close>, \<^verbatim>\<open>heappush\<close>, the loop of
  \<^verbatim>\<open>_siftup\<close>, \<^verbatim>\<open>_siftup\<close>, \<^verbatim>\<open>heappop\<close> (\<open>None\<close> is the \<^verbatim>\<open>IndexError\<close> on an empty
  heap). All indices are within the list.
\<close>

function siftdown :: "event list \<Rightarrow> nat \<Rightarrow> nat \<Rightarrow> event \<Rightarrow> event list" where
  "siftdown heap startpos pos newitem =
     (if startpos < pos then
        (let parentpos = (pos - 1) div 2;
             parent = heap ! parentpos
         in if event_lt newitem parent
            then siftdown (heap[pos := parent]) startpos parentpos newitem
            else heap[pos := newitem])
      else heap[pos := newitem])"
  by pat_completeness auto
termination
  by (relation "measure (\<lambda>(heap, startpos, pos, newitem). pos)") auto

declare siftdown.simps [simp del]

definition heappush :: "event list \<Rightarrow> event \<Rightarrow> event list" where
  "heappush heap item = siftdown (heap @ [item]) 0 (length heap) item"

function siftup_loop :: "event list \<Rightarrow> nat \<Rightarrow> nat \<Rightarrow> nat \<Rightarrow> event list \<times> nat" where
  "siftup_loop heap pos childpos endpos =
     (if childpos < endpos then
        (let rightpos = childpos + 1;
             childpos1 = (if rightpos < endpos
                             \<and> \<not> event_lt (heap ! childpos) (heap ! rightpos)
                          then rightpos else childpos)
         in siftup_loop (heap[pos := heap ! childpos1]) childpos1 (2 * childpos1 + 1) endpos)
      else (heap, pos))"
  by pat_completeness auto
termination
  by (relation "measure (\<lambda>(heap, pos, childpos, endpos). endpos - childpos)") auto

declare siftup_loop.simps [simp del]

definition siftup :: "event list \<Rightarrow> nat \<Rightarrow> event list" where
  "siftup heap pos =
     (let endpos = length heap; startpos = pos; newitem = heap ! pos
      in case siftup_loop heap pos (2 * pos + 1) endpos of
           (heap1, pos1) \<Rightarrow> siftdown heap1 startpos pos1 newitem)"

definition heappop :: "event list \<Rightarrow> (event \<times> event list) option" where
  "heappop heap =
     (if heap = [] then None
      else let lastelt = last heap; heap1 = butlast heap
           in if heap1 \<noteq> [] then Some (heap1 ! 0, siftup (heap1[0 := lastelt]) 0)
              else Some (lastelt, heap1))"

text \<open>
  The event queue when the run loop starts: \<^verbatim>\<open>_schedule_initial_arrivals\<close>, called by
  \<^verbatim>\<open>Simulation.__init__\<close>, then the first \<^verbatim>\<open>EndOfDayEvent\<close> added by \<^verbatim>\<open>run\<close>. The four
  numbers are the addresses of the four event objects.
\<close>

definition initial_events :: "datetime \<Rightarrow> nat \<Rightarrow> nat \<Rightarrow> nat \<Rightarrow> nat \<Rightarrow> event list" where
  "initial_events start id1 id2 id3 id4 =
     (let q1 = heappush [] \<lparr>time = start, obj_id = id1, what = FamilyArrivalEvent\<rparr>;
          q2 = heappush q1 \<lparr>time = start + 3600000000, obj_id = id2,
                             what = TeensGroupArrivalEvent\<rparr>;
          q3 = heappush q2 \<lparr>time = start, obj_id = id3, what = SingleGroupArrivalEvent\<rparr>;
          first_day_end = start - start mod 86400000000 + 19 * 3600000000;
          first_day_end1 = (if first_day_end \<le> start then first_day_end + 86400000000
                            else first_day_end)
      in heappush q3 \<lparr>time = first_day_end1, obj_id = id4, what = EndOfDayEvent\<rparr>)"

text \<open>
  A scenario: teen groups 1, 2, 3 of sizes 5, 2, 4 wait in the regular queue of the Big
  Pipes Slide since 10:00, 10:01, 10:02; every other visitor has size 3. In the second
  facility, visitor 4 waits in the express queue as well.
\<close>

definition at_time :: "int \<Rightarrow> int \<Rightarrow> datetime" where
  "at_time h m = (h * 60 + m) * 60000000"

definition teens :: store where
  "teens v =
     \<lparr> kind = TeenGroup,
       group_size = (if v = 1 then 5 else if v = 2 then 2 else if v = 3 then 4 else 3),
       rating = 10, has_express_pass = False, kids_ages = [], min_age = 14,
       visited_facilities = [], is_shared_tube = False,
       tube_partner = None, active_subgroups_count = 1 \<rparr>"

definition slide_524 :: Pipes_Slide where
  "slide_524 =
     Big_Pipes_Slide_init
       \<lparr>queue_regular :=
          add 3 (at_time 10 2) (add 2 (at_time 10 1) (add 1 (at_time 10 0) QueueServer_init))\<rparr>"

definition slide_3_524 :: Pipes_Slide where
  "slide_3_524 = slide_524\<lparr>queue_express := add 4 (at_time 10 3) QueueServer_init\<rparr>"

text \<open>The first facility after a failed batch assembly at 10:05.\<close>

definition slide_524_rolled_back :: Pipes_Slide where
  "slide_524_rolled_back =
     slide_524
       \<lparr>queue_regular :=
          (queue_regular slide_524)
            \<lparr>waiting_times := [5, 4], total_queue_length_time := 1 / 10,
              queue_lengths := [0, 1, 2, 3, 2, 1, 2, 3],
              queue_change_times :=
                [at_time 10 0, at_time 10 1, at_time 10 2, at_time 10 5, at_time 10 5,
                 at_time 10 1, at_time 10 0]\<rparr>\<rparr>"

text \<open>
  A Snorkel Tour with both instructors free and teen group 1 waiting in the regular
  queue since 12:10.
\<close>

definition snorkel_waiting :: Snorkel_Tour where
  "snorkel_waiting =
     Snorkel_Tour_init\<lparr>queue_regular := add 1 (at_time 12 10) QueueServer_init\<rparr>"

text \<open>
  A Pipes River with 10 tubes taken: visitor 6 (size 4) rides alone, visitors 7 (size 3)
  and 8 (size 5) share their tubes.
\<close>

definition river_guests :: store where
  "river_guests v =
     \<lparr> kind = TeenGroup,
       group_size = (if v = 6 then 4 else if v = 7 then 3 else if v = 8 then 5 else 2),
       rating = 10, has_express_pass = False, kids_ages = [], min_age = 14,
       visited_facilities = [],
       is_shared_tube = (v = 7 \<or> v = 8),
       tube_partner = (if v = 7 then Some 8 else if v = 8 then Some 7 else None),
       active_subgroups_count = 1 \<rparr>"

definition river_busy :: Pipes_River where
  "river_busy = Pipes_River_init\<lparr>users_in_service := [6, 7, 8], occupied_tubes := 10\<rparr>"

section \<open>facilities.py: Single_Slide, Waves_Pool, Kids_Pool\<close>

text \<open>
  The constants of \<^verbatim>\<open>__init__\<close> of the three classes. \<^verbatim>\<open>Waves_Pool\<close> adds no attribute
  to \<^verbatim>\<open>Facility\<close>; its capacity is a parameter (80 by default).
\<close>

record Single_Slide = Facility +
  num_slides :: nat
  activity_duration :: real
  safety_interval :: real
  last_entry_times :: "real list"

definition Single_Slide_init :: Single_Slide where
  "Single_Slide_init =
     \<lparr> name = ''Single Slide'', capacity = 6, age_limit = 14, adrenalin_level = 5,
       queue_regular = QueueServer_init, queue_express = QueueServer_init,
       users_in_service = [], num_slides = 2, activity_duration = 3,
       safety_interval = 0.5, last_entry_times = [- 1000, - 1000] \<rparr>"

definition Waves_Pool_init :: "nat \<Rightarrow> Facility" where
  "Waves_Pool_init cap =
     \<lparr> name = ''Wave Pool'', capacity = cap, age_limit = 12, adrenalin_level = 3,
       queue_regular = QueueServer_init, queue_express = QueueServer_init,
       users_in_service = [] \<rparr>"

record Kids_Pool = Facility +
  max_age :: nat

definition Kids_Pool_init :: Kids_Pool where
  "Kids_Pool_init =
     \<lparr> name = ''Kids Pool'', capacity = 30, age_limit = 4, adrenalin_level = 1,
       queue_regular = QueueServer_init, queue_express = QueueServer_init,
       users_in_service = [], max_age = 4 \<rparr>"

section \<open>Simulation.py: Simulation\<close>

text \<open>
  The state of a run. \<^verbatim>\<open>facilities\<close> is the list of the seven facilities as the
  functions of this section see them: through the attributes of the base class. The
  reception desk plays no part in them and is left out.
\<close>

record Restaurant =
  restaurant_name :: string
  queue :: QueueServer
  stations_busy :: "bool list"

definition Restaurant_init :: "string \<Rightarrow> Restaurant" where
  "Restaurant_init n =
     \<lparr> restaurant_name = n, queue = QueueServer_init, stations_busy = [False] \<rparr>"

record Simulation =
  facilities :: "Facility list"
  restaurants :: "Restaurant list"
  event_queue :: "event list"
  clock :: datetime
  end_time :: datetime
  total_people_arrived :: nat
  total_entities_arrived :: nat
  total_people_completed :: nat
  total_entities_completed :: nat
  total_people_entered :: nat
  total_entities_entered :: nat
  total_revenue :: rat
  ratings :: "rat list"
  visitors_completed :: "vref list"

definition seven_facilities :: "Facility list" where
  "seven_facilities =
     [Facility.truncate Pipes_River_init, Facility.truncate Single_Slide_init,
      Facility.truncate Big_Pipes_Slide_init, Facility.truncate Small_Pipes_Slide_init,
      Waves_Pool_init 80, Facility.truncate Kids_Pool_init,
      Facility.truncate Snorkel_Tour_init]"

definition Simulation_init :: "datetime \<Rightarrow> nat \<Rightarrow> nat \<Rightarrow> nat \<Rightarrow> nat \<Rightarrow> Simulation" where
  "Simulation_init start_date id1 id2 id3 id4 =
     \<lparr> facilities = seven_facilities,
       restaurants = [Restaurant_init ''Pizza'', Restaurant_init ''Burger'',
                      Restaurant_init ''Salad''],
       event_queue = initial_events start_date id1 id2 id3 id4,
       clock = start_date, end_time = start_date + 10 * 3600000000,
       total_people_arrived = 0, total_entities_arrived = 0,
       total_people_completed = 0, total_entities_completed = 0,
       total_people_entered = 0, total_entities_entered = 0,
       total_revenue = 0, ratings = [], visitors_completed = [] \<rparr>"

text \<open>sampling_algorithms.py, \<^verbatim>\<open>get_photo_purchase_decision\<close>\<close>

definition get_photo_purchase_decision :: "rat \<Rightarrow> string option \<times> rat" where
  "get_photo_purchase_decision final_rating =
     (if final_rating < 6 then (None, 0)
      else if final_rating < 7.5 then (Some ''1_photo'', 20)
      else if final_rating < 8.5 then (Some ''10_photos'', 100)
      else (Some ''10_photos_video'', 120))"

text \<open>
  \<^verbatim>\<open>Simulation._complete_visitor\<close>. The same statements, on the same visitor, are the exit
  of a teen group or a single visitor in \<^verbatim>\<open>EndFacilityEvent.handle\<close> and the two
  ``leave park'' branches of \<^verbatim>\<open>AbandonmentEvent.handle\<close>.
\<close>

definition complete_visitor :: "store \<Rightarrow> vref \<Rightarrow> Simulation \<Rightarrow> Simulation" where
  "complete_visitor st visitor sim =
     (case get_photo_purchase_decision (rating (st visitor)) of
        (package, price) \<Rightarrow>
          (let sim1 = (if package \<noteq> None then sim\<lparr>total_revenue := total_revenue sim + price\<rparr>
                       else sim)
           in sim1\<lparr>ratings := ratings sim1 @ [rating (st visitor)],
                   visitors_completed := visitors_completed sim1 @ [visitor],
                   total_entities_completed := total_entities_completed sim1 + 1,
                   total_people_completed :=
                     total_people_completed sim1 + group_size (st visitor)\<rparr>))"

text \<open>
  \<^verbatim>\<open>Simulation.force_close_park\<close>: the inner loop over a list of visitors with the local
  set \<^verbatim>\<open>completed_entities\<close>, the loop over the facilities (in service, regular queue,
  express queue), and the function.
\<close>

fun close_visitors ::
  "store \<Rightarrow> vref list \<Rightarrow> Simulation \<times> vref set \<Rightarrow> Simulation \<times> vref set" where
  "close_visitors st [] s = s"
| "close_visitors st (visitor # rest) (sim, completed_entities) =
     (if visitor \<notin> completed_entities
      then close_visitors st rest
             (complete_visitor st visitor sim, insert visitor completed_entities)
      else close_visitors st rest (sim, completed_entities))"

fun close_facilities ::
  "store \<Rightarrow> Facility list \<Rightarrow> Simulation \<times> vref set \<Rightarrow> Simulation \<times> vref set" where
  "close_facilities st [] s = s"
| "close_facilities st (facility # rest) s =
     close_facilities st rest
       (close_visitors st (visitors (queue_express facility))
          (close_visitors st (visitors (queue_regular facility))
             (close_visitors st (users_in_service facility) s)))"

definition force_close_park :: "store \<Rightarrow> Simulation \<Rightarrow> Simulation" where
  "force_close_park st sim =
     fst (close_facilities st (facilities sim) (sim, set (visitors_completed sim)))"

section \<open>Simulation.py: choose_facility\<close>

text \<open>\<^verbatim>\<open>get_min_age\<close> of the four classes.\<close>

definition get_min_age :: "visitor \<Rightarrow> rat" where
  "get_min_age v =
     (case kind v of
        Family \<Rightarrow> (if kids_ages v \<noteq> [] then min_list (kids_ages v) else 14)
      | _ \<Rightarrow> min_age v)"

definition get_total_waiting :: "Facility \<Rightarrow> nat" where
  "get_total_waiting f = qsize (queue_regular f) + qsize (queue_express f)"

text \<open>\<^verbatim>\<open>min(eligible, key=...)\<close>: the first of the elements with the least key.\<close>

fun min_by :: "('a \<Rightarrow> nat) \<Rightarrow> 'a list \<Rightarrow> 'a option" where
  "min_by key [] = None"
| "min_by key (x # xs) =
     (case min_by key xs of
        None \<Rightarrow> Some x
      | Some m \<Rightarrow> if key m < key x then Some m else Some x)"

text \<open>
  \<^verbatim>\<open>choose_facility\<close> returns the index of the chosen facility. Every visitor class has
  \<^verbatim>\<open>visited_facilities\<close>, so the \<^verbatim>\<open>hasattr\<close> test holds. Each of the branches for
  families, teen groups and single visitors falls through to the next when its list is
  empty.
\<close>

definition choose_facility :: "store \<Rightarrow> Simulation \<Rightarrow> vref \<Rightarrow> bool \<Rightarrow> nat option" where
  "choose_facility st sim visitor is_first_visit =
     (let v = st visitor;
          fs = facilities sim;
          candidates = [0..<length fs];
          unvisited = (\<lambda>i. i \<notin> set (visited_facilities v));
          fits_age = (\<lambda>i. of_nat (age_limit (fs ! i)) \<le> get_min_age v);
          shortest = min_by (\<lambda>i. get_total_waiting (fs ! i));
          remaining_facilities = filter (\<lambda>i. unvisited i \<and> fits_age i) candidates;
          eligible_family = filter (\<lambda>i. age_limit (fs ! i) = 0 \<and> unvisited i) candidates;
          eligible_teen =
            filter (\<lambda>i. 3 \<le> adrenalin_level (fs ! i) \<and> fits_age i \<and> unvisited i) candidates;
          eligible_single =
            (if is_first_visit
             then filter (\<lambda>i. 12 \<le> age_limit (fs ! i) \<and> unvisited i) candidates
             else filter (\<lambda>i. name (fs ! i) \<noteq> ''Kids Pool'' \<and> unvisited i) candidates);
          eligible = filter (\<lambda>i. fits_age i \<and> unvisited i) candidates
      in if remaining_facilities = [] then None
         else if is_first_visit \<and> (case kind v of Family \<Rightarrow> True | SubGroup p \<Rightarrow> True | _ \<Rightarrow> False)
                 \<and> eligible_family \<noteq> []
         then shortest eligible_family
         else if kind v = TeenGroup \<and> eligible_teen \<noteq> [] then shortest eligible_teen
         else if kind v = SingleVisitor \<and> eligible_single \<noteq> [] then shortest eligible_single
         else shortest eligible)"

section \<open>Event.py: leaving the park\<close>

text \<open>entities.py, \<^verbatim>\<open>Visitor.update_rating_negative\<close>\<close>

definition update_rating_negative :: "rat \<Rightarrow> visitor \<Rightarrow> visitor" where
  "update_rating_negative amount v = v\<lparr>rating := max 0 (rating v - amount)\<rparr>"

text \<open>
  entities.py, \<^verbatim>\<open>TeenGroup.handle_abandonment\<close>; the result is whether the action is
  \<^verbatim>\<open>"buy_express_and_return"\<close>. \<open>u\<close> is the uniform draw of
  \<^verbatim>\<open>should_teens_buy_express_after_abandon\<close>, read only by a group without pass. The
  attributes \<^verbatim>\<open>abandoned_facilities\<close> and \<^verbatim>\<open>abandon_count\<close> are written here and read
  nowhere; they are left out.
\<close>

definition handle_abandonment :: "real \<Rightarrow> visitor \<Rightarrow> bool \<times> visitor" where
  "handle_abandonment u v =
     (if \<not> has_express_pass v \<and> u \<le> 0.6 then (True, v\<lparr>has_express_pass := True\<rparr>)
      else (False, v))"

text \<open>
  \<^verbatim>\<open>AbandonmentEvent.handle\<close>: the branch ``move to next facility'', which the source has
  twice (teen groups that do not buy a pass, and the other classes), and the handler.
  The result is the store, the state and the events added.
\<close>

definition leave_or_next ::
  "datetime \<Rightarrow> vref \<Rightarrow> store \<Rightarrow> Simulation
     \<Rightarrow> store \<times> Simulation \<times> (datetime \<times> event_kind) list" where
  "leave_or_next t visitor st sim =
     (case choose_facility st sim visitor False of
        Some next_facility \<Rightarrow> (st, sim, [(t, ArriveAtFacilityEvent visitor next_facility)])
      | None \<Rightarrow> (st, complete_visitor st visitor sim, []))"

definition abandonment_handle ::
  "datetime \<Rightarrow> vref \<Rightarrow> nat \<Rightarrow> real \<Rightarrow> store \<Rightarrow> Simulation
     \<Rightarrow> store \<times> Simulation \<times> (datetime \<times> event_kind) list" where
  "abandonment_handle t visitor fi u st sim =
     (let sim0 = sim\<lparr>clock := t\<rparr>;
          facility = facilities sim0 ! fi;
          visitor_in_regular = (visitor \<in> set (visitors (queue_regular facility)));
          visitor_in_express = (visitor \<in> set (visitors (queue_express facility)))
      in if \<not> visitor_in_regular \<and> \<not> visitor_in_express then (st, sim0, [])
         else
           (let facility1 =
                  (if visitor_in_regular
                   then facility\<lparr>queue_regular :=
                                   remove_visitor visitor t (queue_regular facility)\<rparr>
                   else facility\<lparr>queue_express :=
                                   remove_visitor visitor t (queue_express facility)\<rparr>);
                sim1 = sim0\<lparr>facilities := (facilities sim0)[fi := facility1]\<rparr>;
                st1 = st(visitor := update_rating_negative 0.8 (st visitor))
            in if kind (st1 visitor) = TeenGroup then
                 (case handle_abandonment u (st1 visitor) of
                    (buy_express_and_return, v2) \<Rightarrow>
                      (let st2 = st1(visitor := v2)
                       in if buy_express_and_return
                          then (st2,
                                sim1\<lparr>total_revenue :=
                                       total_revenue sim1 + 50 * of_nat (group_size v2)\<rparr>,
                                [(t, ArriveAtFacilityEvent visitor fi)])
                          else leave_or_next t visitor st2 sim1))
               else leave_or_next t visitor st1 sim1))"

text \<open>
  \<^verbatim>\<open>EndFacilityEvent.handle\<close>, the block under \<^verbatim>\<open>if should_leave\<close> for one entity.
\<close>

definition leave_after_ride :: "vref \<Rightarrow> store \<Rightarrow> Simulation \<Rightarrow> store \<times> Simulation" where
  "leave_after_ride entity st sim =
     (case kind (st entity) of
        Family \<Rightarrow>
          (let st1 = st(entity := (st entity)\<lparr>active_subgroups_count := 0\<rparr>)
           in (st1, complete_visitor st1 entity sim))
      | SubGroup original \<Rightarrow>
          (let st1 = st(original := (st original)
                         \<lparr>active_subgroups_count := active_subgroups_count (st original) - 1\<rparr>)
           in if active_subgroups_count (st1 original) = 0
              then (st1, complete_visitor st1 original sim)
              else (st1, sim))
      | _ \<Rightarrow> (st, complete_visitor st entity sim))"

text \<open>
  A run from 05:00 to 15:00. At the horizon, single visitor 5, who has entered the park
  and ridden the Pipes River, is at the Burger restaurant (in its queue, at its busy
  station); no facility holds anybody.
\<close>


definition lunch_guest :: store where
  "lunch_guest v =
     \<lparr> kind = SingleVisitor, group_size = 1, rating = 10, has_express_pass = False,
       kids_ages = [], min_age = 30, visited_facilities = [0],
       is_shared_tube = False, tube_partner = None, active_subgroups_count = 1 \<rparr>"

definition park_at_lunch :: Simulation where
  "park_at_lunch =
     (Simulation_init (at_time 5 0) 1 2 3 4)
       \<lparr>restaurants :=
          [Restaurant_init ''Pizza'',
           (Restaurant_init ''Burger'')
             \<lparr>queue := add 5 (at_time 14 55) QueueServer_init, stations_busy := [True]\<rparr>,
           Restaurant_init ''Salad''],
        event_queue := [\<lparr>time = at_time 15 4, obj_id = 9,
                          what = EndRestaurantServiceEvent 5 1 0\<rparr>],
        clock := at_time 15 0,
        total_people_arrived := 1, total_entities_arrived := 1,
        total_people_entered := 1, total_entities_entered := 1\<rparr>"

text \<open>
  Family 10 (two parents, kids of 3, 13 and 15) has split into the subgroups 11 and 12.
  Subgroup 11 has ridden the Pipes River and the Big Pipes Slide and has left through the
  ride path, so the family counts one active subgroup; a second entry of 11 still waits
  in the regular queue of the Big Pipes Slide (a visitor served at a free restaurant
  station stays in the restaurant queue and is served again, which doubles its later
  events). Subgroup 12 is in the Wave Pool.
\<close>

definition split_family :: store where
  "split_family v =
     (if v = 10 then
        \<lparr> kind = Family, group_size = 5, rating = 9, has_express_pass = False,
          kids_ages = [3, 13, 15], min_age = 0, visited_facilities = [0],
          is_shared_tube = False, tube_partner = None, active_subgroups_count = 1 \<rparr>
      else if v = 11 then
        \<lparr> kind = SubGroup 10, group_size = 2, rating = 9, has_express_pass = False,
          kids_ages = [], min_age = 3, visited_facilities = [0, 2],
          is_shared_tube = False, tube_partner = None, active_subgroups_count = 0 \<rparr>
      else
        \<lparr> kind = SubGroup 10, group_size = 2, rating = 9, has_express_pass = False,
          kids_ages = [], min_age = 13, visited_facilities = [],
          is_shared_tube = False, tube_partner = None, active_subgroups_count = 0 \<rparr>)"

definition park_with_subgroup :: Simulation where
  "park_with_subgroup =
     (Simulation_init (at_time 9 0) 1 2 3 4)
       \<lparr>facilities :=
          seven_facilities
            [2 := (seven_facilities ! 2)
                    \<lparr>queue_regular := add 11 (at_time 14 0) QueueServer_init\<rparr>,
             4 := (seven_facilities ! 4)\<lparr>users_in_service := [12]\<rparr>],
        event_queue := [],
        clock := at_time 14 0,
        total_people_arrived := 5, total_entities_arrived := 1,
        total_people_entered := 5, total_entities_entered := 1\<rparr>"

section \<open>Event.py: what the handlers do to a facility\<close>

text \<open>
  Four handlers touch a facility. \<^verbatim>\<open>ArriveAtFacilityEvent.handle\<close> adds the visitor to
  the express queue if it holds an express pass and to the regular queue otherwise
  (\<open>enter_queue\<close>), then calls \<^verbatim>\<open>try_start_facility\<close>. \<^verbatim>\<open>EndFacilityEvent.handle\<close>
  removes the visitor from \<^verbatim>\<open>users_in_service\<close> if it is there (\<open>leave_service\<close>;
  \<^verbatim>\<open>list.remove\<close> deletes the first occurrence). \<^verbatim>\<open>AbandonmentEvent.handle\<close> returns
  at once if the visitor is in neither queue, and otherwise removes it from the regular
  queue if it is there, else from the express queue (\<open>abandon_queue\<close>).
  \<^verbatim>\<open>EndOfDayEvent.handle\<close> closes the statistics of both queues of every facility
  (\<open>end_of_day\<close>): a queue with no recorded change gets the entry of 09:00 of that day
  first.
\<close>

definition enter_queue ::
  "store \<Rightarrow> vref \<Rightarrow> datetime \<Rightarrow> 'a Facility_scheme \<Rightarrow> 'a Facility_scheme" where
  "enter_queue st visitor current_time f =
     (if has_express_pass (st visitor)
      then f\<lparr>queue_express := add visitor current_time (queue_express f)\<rparr>
      else f\<lparr>queue_regular := add visitor current_time (queue_regular f)\<rparr>)"

definition leave_service :: "vref \<Rightarrow> 'a Facility_scheme \<Rightarrow> 'a Facility_scheme" where
  "leave_service visitor f =
     (if visitor \<in> set (users_in_service f)
      then f\<lparr>users_in_service := remove1 visitor (users_in_service f)\<rparr> else f)"

definition abandon_queue ::
  "vref \<Rightarrow> datetime \<Rightarrow> 'a Facility_scheme \<Rightarrow> 'a Facility_scheme" where
  "abandon_queue visitor current_time f =
     (let visitor_in_regular = (visitor \<in> set (visitors (queue_regular f)));
          visitor_in_express = (visitor \<in> set (visitors (queue_express f)))
      in if \<not> visitor_in_regular \<and> \<not> visitor_in_express then f
         else if visitor_in_regular
         then f\<lparr>queue_regular := remove_visitor visitor current_time (queue_regular f)\<rparr>
         else f\<lparr>queue_express := remove_visitor visitor current_time (queue_express f)\<rparr>)"

definition day_start :: "datetime \<Rightarrow> datetime" where
  "day_start t = t - t mod 86400000000 + 9 * 3600000000"

definition end_of_day_queue :: "datetime \<Rightarrow> QueueServer \<Rightarrow> QueueServer" where
  "end_of_day_queue t q =
     calc_daily_statistics
       (record_queue_length t
          (if queue_change_times q = []
           then q\<lparr>queue_change_times := [day_start t], queue_lengths := [qsize q]\<rparr>
           else q))"

definition end_of_day :: "datetime \<Rightarrow> 'a Facility_scheme \<Rightarrow> 'a Facility_scheme" where
  "end_of_day t f =
     f\<lparr>queue_regular := end_of_day_queue t (queue_regular f),
       queue_express := end_of_day_queue t (queue_express f)\<rparr>"

section \<open>Simulation.py: try_start_facility, Wave Pool and Kids Pool\<close>

text \<open>
  \<^verbatim>\<open>Waves_Pool.can_enter\<close> and \<^verbatim>\<open>Kids_Pool.can_enter\<close>: the people in service plus the
  group fit the capacity. The two branches of \<^verbatim>\<open>try_start_facility\<close> are the same code:
  one pass of the \<^verbatim>\<open>while\<close> loop scans a copy of the express queue for the first group
  that fits (\<open>first_fitting\<close>), pops it if it is the head and removes it otherwise
  (\<open>take_out\<close>), and appends it to \<^verbatim>\<open>users_in_service\<close>; the regular queue is scanned
  only if the express queue admitted nobody (\<open>pool_pass\<close>). The loop runs while a pass
  admitted someone and a queue is non-empty (\<open>pool_loop\<close>, which also collects the
  admitted visitors, one \<^verbatim>\<open>EndFacilityEvent\<close> each). Every pass that admits a visitor
  shortens a queue, which is the termination argument.
\<close>

definition pool_can_enter :: "store \<Rightarrow> nat \<Rightarrow> 'a Facility_scheme \<Rightarrow> bool" where
  "pool_can_enter st gs f = (headcount st (users_in_service f) + gs \<le> capacity f)"

fun first_fitting ::
  "store \<Rightarrow> 'a Facility_scheme \<Rightarrow> nat \<Rightarrow> vref list \<Rightarrow> (nat \<times> vref) option" where
  "first_fitting st f i [] = None"
| "first_fitting st f i (next_visitor # rest) =
     (if pool_can_enter st (group_size (st next_visitor)) f then Some (i, next_visitor)
      else first_fitting st f (Suc i) rest)"

definition take_out :: "datetime \<Rightarrow> nat \<Rightarrow> vref \<Rightarrow> QueueServer \<Rightarrow> QueueServer" where
  "take_out current_time i next_visitor q =
     (if i = 0 then snd (pop current_time q) else remove_visitor next_visitor current_time q)"

definition pool_pass ::
  "store \<Rightarrow> datetime \<Rightarrow> 'a Facility_scheme \<Rightarrow> 'a Facility_scheme \<times> vref option" where
  "pool_pass st current_time f =
     (case first_fitting st f 0 (visitors (queue_express f)) of
        Some (i, visitor) \<Rightarrow>
          (f\<lparr>queue_express := take_out current_time i visitor (queue_express f),
             users_in_service := users_in_service f @ [visitor]\<rparr>, Some visitor)
      | None \<Rightarrow>
          (case first_fitting st f 0 (visitors (queue_regular f)) of
             Some (i, visitor) \<Rightarrow>
               (f\<lparr>queue_regular := take_out current_time i visitor (queue_regular f),
                  users_in_service := users_in_service f @ [visitor]\<rparr>, Some visitor)
           | None \<Rightarrow> (f, None)))"

lemma length_remove_first: "length (remove_first v xs) \<le> length xs"
  by (induction xs) auto

lemma length_remove_first_pair:
  "(v, b) \<in> set xs \<Longrightarrow> length (remove_first v xs) < length xs"
  by (induction xs) (auto simp: less_Suc_eq_le length_remove_first)

lemma length_remove_first_less:
  "v \<in> fst ` set xs \<Longrightarrow> length (remove_first v xs) < length xs"
  by (auto dest: length_remove_first_pair)

lemma first_fitting_mem: "first_fitting st f i vs = Some (j, v) \<Longrightarrow> v \<in> set vs"
  by (induction vs arbitrary: i) (auto split: if_splits)

lemma qsize_take_out:
  assumes "v \<in> set (visitors q)"
  shows "qsize (take_out t i v q) < qsize q"
proof (cases "i = 0")
  case True
  from assms obtain e rest where "server_queue q = e # rest"
    by (cases "server_queue q") (auto simp: visitors_def)
  with True show ?thesis
    by (simp add: take_out_def qsize_def pop_def Let_def record_queue_length_def)
next
  case False
  with assms show ?thesis
    by (simp add: take_out_def qsize_def remove_visitor_def Let_def record_queue_length_def
          visitors_def length_remove_first_less)
qed

lemma pool_pass_progress:
  assumes "pool_pass st t f = (f1, Some v)"
  shows "qsize (queue_express f1) + qsize (queue_regular f1)
           < qsize (queue_express f) + qsize (queue_regular f)"
  using assms
  by (auto simp: pool_pass_def split: option.splits
           dest!: first_fitting_mem intro: qsize_take_out add_less_le_mono add_le_less_mono)

function pool_loop ::
  "store \<Rightarrow> datetime \<Rightarrow> 'a Facility_scheme \<Rightarrow> vref list \<Rightarrow> 'a Facility_scheme \<times> vref list" where
  "pool_loop st current_time f admitted =
     (if 0 < qsize (queue_express f) \<or> 0 < qsize (queue_regular f) then
        case pool_pass st current_time f of
          (f1, Some visitor) \<Rightarrow> pool_loop st current_time f1 (admitted @ [visitor])
        | (f1, None) \<Rightarrow> (f1, admitted)
      else (f, admitted))"
  by pat_completeness auto
termination
  by (relation "measure (\<lambda>(st, current_time, f, admitted).
                   qsize (queue_express f) + qsize (queue_regular f))")
     (auto dest: pool_pass_progress [OF sym])

declare pool_loop.simps [simp del]

definition try_start_pool ::
  "store \<Rightarrow> datetime \<Rightarrow> 'a Facility_scheme \<Rightarrow> 'a Facility_scheme \<times> vref list" where
  "try_start_pool st current_time f = pool_loop st current_time f []"

section \<open>Simulation.py: try_start_facility, Big and Small Pipes Slide\<close>

text \<open>
  The branches for the two pipes slides are the same code: if \<^verbatim>\<open>can_enter\<close> holds, the
  batch of \<^verbatim>\<open>get_next_batch\<close> is appended to \<^verbatim>\<open>users_in_service\<close> and every member gets
  an \<^verbatim>\<open>EndFacilityEvent\<close> after the sampled duration.
\<close>

definition try_start_slide ::
  "store \<Rightarrow> datetime \<Rightarrow> real \<Rightarrow> Pipes_Slide \<Rightarrow> Pipes_Slide \<times> end_facility list" where
  "try_start_slide st current_time duration f =
     (if slide_can_enter f then
        case get_next_batch st current_time f of
          (batch, f1) \<Rightarrow>
            if batch \<noteq> [] then
              (f1\<lparr>users_in_service := users_in_service f1 @ batch\<rparr>,
               map (\<lambda>visitor. (current_time + timedelta_minutes duration, visitor, None)) batch)
            else (f1, [])
      else (f, []))"

text \<open>
  The branch for the Big Pipes Slide with the duration that it samples:
  \<^verbatim>\<open>Big_Pipes_Slide.get_service_duration\<close> is \<^verbatim>\<open>sample_big_pipes_slide_duration\<close>, called
  once and only when the batch is not empty, after the batch has been appended to
  \<^verbatim>\<open>users_in_service\<close>. A \<^verbatim>\<open>ValueError\<close> of the sampler is not caught and ends the run.
  The result is the facility, the events added and the next position in the sequence of
  draws.
\<close>

definition try_start_big_pipes ::
  "store \<Rightarrow> datetime \<Rightarrow> draws \<Rightarrow> nat \<Rightarrow> Pipes_Slide
     \<Rightarrow> py_error + Pipes_Slide \<times> end_facility list \<times> nat" where
  "try_start_big_pipes st current_time us n f =
     (if slide_can_enter f then
        case get_next_batch st current_time f of
          (batch, f1) \<Rightarrow>
            if batch \<noteq> [] then
              case sample_big_pipes_slide_duration us n of
                Inl e \<Rightarrow> Inl e
              | Inr (duration, n1) \<Rightarrow>
                  Inr (f1\<lparr>users_in_service := users_in_service f1 @ batch\<rparr>,
                       map (\<lambda>visitor. (current_time + timedelta_minutes duration, visitor, None))
                         batch,
                       n1)
            else Inr (f1, [], n)
      else Inr (f, [], n))"

section \<open>facilities.py: Pipes_River.process_entry\<close>

text \<open>
  \<^verbatim>\<open>find_odd_group_in_queue\<close> returns the index of the first group of odd size.
  One pass of the \<^verbatim>\<open>while\<close> loop of \<^verbatim>\<open>process_entry\<close> is \<open>river_step\<close>. The head of
  the express queue, if there is one, else the head of the regular queue, is looked at.
  A group of even size enters if its tubes are free (\<open>enter_even\<close>). A group of odd
  size is paired with the first odd group behind it in its own queue
  (\<open>pair_same_queue\<close>: the head is popped first, so the partner sits one position
  lower; if the tubes do not suffice both are put back) and, for an express group with no
  partner in the express queue, with the first odd group of the regular queue. The two
  groups of a pair are marked by \<open>share_tube\<close>. The pass reports whether it made
  progress; the loop runs while tubes are free and the last pass made progress.
  \<^verbatim>\<open>try_start_facility\<close> appends the entering groups to \<^verbatim>\<open>users_in_service\<close>.
\<close>

fun find_odd_group_in_queue :: "store \<Rightarrow> nat \<Rightarrow> vref list \<Rightarrow> nat option" where
  "find_odd_group_in_queue st idx [] = None"
| "find_odd_group_in_queue st idx (visitor_group # rest) =
     (if group_size (st visitor_group) mod 2 = 1 then Some idx
      else find_odd_group_in_queue st (Suc idx) rest)"

definition share_tube :: "vref \<Rightarrow> vref \<Rightarrow> store \<Rightarrow> store" where
  "share_tube group1 group2 st =
     (let st1 = st(group1 := (st group1)\<lparr>is_shared_tube := True\<rparr>);
          st2 = st1(group2 := (st1 group2)\<lparr>is_shared_tube := True\<rparr>);
          st3 = st2(group1 := (st2 group1)\<lparr>tube_partner := Some group2\<rparr>)
      in st3(group2 := (st3 group2)\<lparr>tube_partner := Some group1\<rparr>))"

definition enter_even ::
  "store \<Rightarrow> datetime \<Rightarrow> Pipes_River \<Rightarrow> vref \<Rightarrow> QueueServer
     \<Rightarrow> (QueueServer \<times> int \<times> vref list \<times> bool)" where
  "enter_even st current_time f group0 q =
     (let tubes_used = int (group_size (st group0) div people_per_tube f)
      in if occupied_tubes f + tubes_used \<le> total_tubes f
         then (snd (pop current_time q), occupied_tubes f + tubes_used, [group0], True)
         else (q, occupied_tubes f, [], False))"

definition pair_same_queue ::
  "store \<Rightarrow> datetime \<Rightarrow> Pipes_River \<Rightarrow> vref \<Rightarrow> nat \<Rightarrow> QueueServer
     \<Rightarrow> (store \<times> QueueServer \<times> int \<times> vref list \<times> bool)" where
  "pair_same_queue st current_time f group1 odd_idx q =
     (let q1 = snd (pop current_time q);
          group2 = visitors q1 ! (odd_idx - 1);
          q2 = remove_visitor group2 current_time q1;
          total_size = group_size (st group1) + group_size (st group2);
          tubes_used = tubes_for f total_size
      in if occupied_tubes f + tubes_used \<le> total_tubes f
         then (share_tube group1 group2 st, q2, occupied_tubes f + tubes_used,
               [group1, group2], True)
         else (st, insert_at odd_idx group2 current_time (insert_at 0 group1 current_time q2),
               occupied_tubes f, [], False))"

definition river_step ::
  "store \<Rightarrow> datetime \<Rightarrow> Pipes_River \<Rightarrow> store \<times> Pipes_River \<times> vref list \<times> bool" where
  "river_step st current_time f =
     (case server_queue (queue_express f) of
        (group0, arrived) # express_rest \<Rightarrow>
          if group_size (st group0) mod 2 = 0 then
            (case enter_even st current_time f group0 (queue_express f) of
               (qe, occupied, entering, made_progress) \<Rightarrow>
                 (st, f\<lparr>queue_express := qe, occupied_tubes := occupied\<rparr>, entering,
                  made_progress))
          else
            (case find_odd_group_in_queue st 0 (map fst express_rest) of
               Some odd_idx_express \<Rightarrow>
                 (case pair_same_queue st current_time f group0 (odd_idx_express + 1)
                         (queue_express f) of
                    (st1, qe, occupied, entering, made_progress) \<Rightarrow>
                      (st1, f\<lparr>queue_express := qe, occupied_tubes := occupied\<rparr>, entering,
                       made_progress))
             | None \<Rightarrow>
                 (case find_odd_group_in_queue st 0 (visitors (queue_regular f)) of
                    Some odd_idx_regular \<Rightarrow>
                      (let qe1 = snd (pop current_time (queue_express f));
                           group2 = visitors (queue_regular f) ! odd_idx_regular;
                           qr1 = remove_visitor group2 current_time (queue_regular f);
                           total_size = group_size (st group0) + group_size (st group2);
                           tubes_used = tubes_for f total_size
                       in if occupied_tubes f + tubes_used \<le> total_tubes f
                          then (share_tube group0 group2 st,
                                f\<lparr>queue_express := qe1, queue_regular := qr1,
                                  occupied_tubes := occupied_tubes f + tubes_used\<rparr>,
                                [group0, group2], True)
                          else (st,
                                f\<lparr>queue_express := insert_at 0 group0 current_time qe1,
                                  queue_regular :=
                                    insert_at odd_idx_regular group2 current_time qr1\<rparr>,
                                [], False))
                  | None \<Rightarrow> (st, f, [], False)))
      | [] \<Rightarrow>
          (case server_queue (queue_regular f) of
             (group0, arrived) # regular_rest \<Rightarrow>
               if group_size (st group0) mod 2 = 0 then
                 (case enter_even st current_time f group0 (queue_regular f) of
                    (qr, occupied, entering, made_progress) \<Rightarrow>
                      (st, f\<lparr>queue_regular := qr, occupied_tubes := occupied\<rparr>, entering,
                       made_progress))
               else
                 (case find_odd_group_in_queue st 0 (map fst regular_rest) of
                    Some odd_idx \<Rightarrow>
                      (case pair_same_queue st current_time f group0 (odd_idx + 1)
                              (queue_regular f) of
                         (st1, qr, occupied, entering, made_progress) \<Rightarrow>
                           (st1, f\<lparr>queue_regular := qr, occupied_tubes := occupied\<rparr>,
                            entering, made_progress))
                  | None \<Rightarrow> (st, f, [], False))
           | [] \<Rightarrow> (st, f, [], False)))"

lemma qsize_pop_less: "server_queue q = e # rest \<Longrightarrow> qsize (snd (pop t q)) < qsize q"
  by (simp add: qsize_def pop_def Let_def record_queue_length_def)

lemma qsize_remove_visitor_le: "qsize (remove_visitor v t q) \<le> qsize q"
  by (simp add: qsize_def remove_visitor_def Let_def record_queue_length_def
        length_remove_first)

lemma enter_even_progress:
  assumes "enter_even st t f g q = (q1, occ, entering, True)" and "server_queue q = e # rest"
  shows "qsize q1 < qsize q"
  using assms by (auto simp: enter_even_def Let_def qsize_pop_less split: if_splits)

lemma pair_same_queue_progress:
  assumes "pair_same_queue st t f g i q = (st1, q1, occ, entering, True)"
    and "server_queue q = e # rest"
  shows "qsize q1 < qsize q"
proof -
  have "qsize (remove_visitor (visitors (snd (pop t q)) ! (i - 1)) t (snd (pop t q)))
          \<le> qsize (snd (pop t q))"
    by (rule qsize_remove_visitor_le)
  also have "\<dots> < qsize q" using assms(2) by (rule qsize_pop_less)
  finally show ?thesis
    using assms(1) by (auto simp: pair_same_queue_def Let_def split: if_splits)
qed

lemma river_step_progress:
  assumes "river_step st t f = (st1, f1, entering, True)"
  shows "qsize (queue_express f1) + qsize (queue_regular f1)
           < qsize (queue_express f) + qsize (queue_regular f)"
proof (cases "server_queue (queue_express f)")
  case (Cons e rest)
  obtain group0 arrived where e: "e = (group0, arrived)" by (cases e)
  note qe = Cons [unfolded e]
  have pl: "qsize (snd (pop t (queue_express f))) < qsize (queue_express f)"
    using qe by (rule qsize_pop_less)
  show ?thesis
    using assms qe pl qsize_remove_visitor_le [of _ t "queue_regular f"]
    by (auto simp: river_step_def Let_def split: if_splits option.splits prod.splits
             dest: enter_even_progress pair_same_queue_progress
             intro: add_less_le_mono)
next
  case Nil
  show ?thesis
  proof (cases "server_queue (queue_regular f)")
    case Nil2: Nil
    with Nil assms show ?thesis by (simp add: river_step_def)
  next
    case (Cons e rest)
    obtain group0 arrived where e: "e = (group0, arrived)" by (cases e)
    note qr = Cons [unfolded e]
    show ?thesis
      using assms Nil qr
      by (auto simp: river_step_def Let_def split: if_splits option.splits prod.splits
               dest: enter_even_progress pair_same_queue_progress)
  qed
qed

function process_entry_loop ::
  "store \<Rightarrow> datetime \<Rightarrow> Pipes_River \<Rightarrow> vref list \<Rightarrow> store \<times> Pipes_River \<times> vref list" where
  "process_entry_loop st current_time f entering_groups =
     (if occupied_tubes f < total_tubes f then
        case river_step st current_time f of
          (st1, f1, entering, made_progress) \<Rightarrow>
            if made_progress
            then process_entry_loop st1 current_time f1 (entering_groups @ entering)
            else (st1, f1, entering_groups @ entering)
      else (st, f, entering_groups))"
  by pat_completeness auto
termination
  by (relation "measure (\<lambda>(st, current_time, f, entering_groups).
                   qsize (queue_express f) + qsize (queue_regular f))")
     (auto dest: river_step_progress [OF sym])

declare process_entry_loop.simps [simp del]

definition process_entry ::
  "store \<Rightarrow> datetime \<Rightarrow> Pipes_River \<Rightarrow> store \<times> Pipes_River \<times> vref list" where
  "process_entry st current_time f = process_entry_loop st current_time f []"

definition try_start_river ::
  "store \<Rightarrow> datetime \<Rightarrow> Pipes_River \<Rightarrow> store \<times> Pipes_River \<times> vref list" where
  "try_start_river st current_time f =
     (case process_entry st current_time f of
        (st1, f1, entering) \<Rightarrow>
          (st1, f1\<lparr>users_in_service := users_in_service f1 @ entering\<rparr>, entering))"

section \<open>Simulation.py: try_start_facility, Single Slide\<close>

text \<open>
  \<^verbatim>\<open>Single_Slide.get_available_slide\<close> returns the first slide whose last entry is at
  least \<^verbatim>\<open>safety_interval\<close> minutes old, in minutes of the day with the seconds as a
  fraction; \<^verbatim>\<open>record_entry\<close> stores the entry time of a slide. The branch of
  \<^verbatim>\<open>try_start_facility\<close> runs while a queue is non-empty and a slide is available: it
  pops the head of the express queue, else of the regular queue, records the entry and
  appends the visitor to \<^verbatim>\<open>users_in_service\<close>. \<^verbatim>\<open>Single_Slide.can_enter\<close> is not called
  in this branch.
\<close>

definition second :: "datetime \<Rightarrow> int" where
  "second t = (t div 1000000) mod 60"

definition slide_minutes :: "datetime \<Rightarrow> real" where
  "slide_minutes current_time =
     of_int (hour current_time * 60 + minute current_time) + of_int (second current_time) / 60"

fun find_slide :: "real \<Rightarrow> real \<Rightarrow> nat \<Rightarrow> real list \<Rightarrow> nat option" where
  "find_slide cm interval i [] = None"
| "find_slide cm interval i (last_time # rest) =
     (if interval \<le> cm - last_time then Some i else find_slide cm interval (Suc i) rest)"

definition get_available_slide :: "datetime \<Rightarrow> Single_Slide \<Rightarrow> nat option" where
  "get_available_slide current_time f =
     find_slide (slide_minutes current_time) (safety_interval f) 0
       (take (num_slides f) (last_entry_times f))"

definition record_entry :: "nat \<Rightarrow> datetime \<Rightarrow> Single_Slide \<Rightarrow> Single_Slide" where
  "record_entry slide_index current_time f =
     f\<lparr>last_entry_times := (last_entry_times f)[slide_index := slide_minutes current_time]\<rparr>"

function single_loop ::
  "datetime \<Rightarrow> Single_Slide \<Rightarrow> vref list \<Rightarrow> Single_Slide \<times> vref list" where
  "single_loop current_time f admitted =
     (if 0 < qsize (queue_express f) \<or> 0 < qsize (queue_regular f) then
        case get_available_slide current_time f of
          None \<Rightarrow> (f, admitted)
        | Some slide_idx \<Rightarrow>
            (case server_queue (queue_express f) of
               (visitor, arrived) # rest \<Rightarrow>
                 (let f1 = f\<lparr>queue_express := snd (pop current_time (queue_express f))\<rparr>;
                      f2 = record_entry slide_idx current_time f1
                  in single_loop current_time
                       (f2\<lparr>users_in_service := users_in_service f2 @ [visitor]\<rparr>)
                       (admitted @ [visitor]))
             | [] \<Rightarrow>
                 (case server_queue (queue_regular f) of
                    (visitor, arrived) # rest \<Rightarrow>
                      (let f1 = f\<lparr>queue_regular :=
                                     snd (pop current_time (queue_regular f))\<rparr>;
                           f2 = record_entry slide_idx current_time f1
                       in single_loop current_time
                            (f2\<lparr>users_in_service := users_in_service f2 @ [visitor]\<rparr>)
                            (admitted @ [visitor]))
                  | [] \<Rightarrow> (f, admitted)))
      else (f, admitted))"
  by pat_completeness auto
termination
  by (relation "measure (\<lambda>(current_time, f, admitted).
                   qsize (queue_express f) + qsize (queue_regular f))")
     (auto simp: record_entry_def pop_def qsize_def record_queue_length_def Let_def)

declare single_loop.simps [simp del]

definition try_start_single ::
  "datetime \<Rightarrow> Single_Slide \<Rightarrow> Single_Slide \<times> end_facility list" where
  "try_start_single current_time f =
     (case single_loop current_time f [] of
        (f1, admitted) \<Rightarrow>
          (f1, map (\<lambda>visitor. (current_time + timedelta_minutes (activity_duration f),
                               visitor, None)) admitted))"

section \<open>Event.py: the handlers on the Snorkel Tour\<close>

text \<open>
  \<^verbatim>\<open>ArriveAtFacilityEvent.handle\<close>, \<^verbatim>\<open>EndFacilityEvent.handle\<close> (with an instructor
  index), \<^verbatim>\<open>InstructorBreakEndEvent.handle\<close> and \<^verbatim>\<open>InstructorLunchEndEvent.handle\<close> on the
  Snorkel Tour: at the end of a break a tour is started only if the instructor does not
  go to lunch.
\<close>

definition snorkel_arrive ::
  "store \<Rightarrow> vref \<Rightarrow> datetime \<Rightarrow> real \<Rightarrow> Snorkel_Tour \<Rightarrow> Snorkel_Tour" where
  "snorkel_arrive st visitor t duration f =
     fst (try_start_snorkel st t duration (enter_queue st visitor t f))"

definition snorkel_end :: "vref \<Rightarrow> nat \<Rightarrow> datetime \<Rightarrow> Snorkel_Tour \<Rightarrow> Snorkel_Tour" where
  "snorkel_end visitor instructor_idx t f = finish_tour instructor_idx t (leave_service visitor f)"

definition snorkel_break_end ::
  "store \<Rightarrow> nat \<Rightarrow> datetime \<Rightarrow> real \<Rightarrow> Snorkel_Tour \<Rightarrow> Snorkel_Tour" where
  "snorkel_break_end st instructor_idx t duration f =
     (case finish_break instructor_idx t f of
        (goes_to_lunch, f1) \<Rightarrow>
          if goes_to_lunch then f1 else fst (try_start_snorkel st t duration f1))"

definition snorkel_lunch_end ::
  "store \<Rightarrow> nat \<Rightarrow> datetime \<Rightarrow> real \<Rightarrow> Snorkel_Tour \<Rightarrow> Snorkel_Tour" where
  "snorkel_lunch_end st instructor_idx t duration f =
     fst (try_start_snorkel st t duration (finish_lunch instructor_idx f))"

text \<open>
  Two runs. On the Single Slide the teen groups 1 (5 people) and 2 (2 people) arrive at
  10:00 and 10:01. On the Snorkel Tour seven groups of 6 people arrive between 10:00 and
  10:06, the first two without an express pass; the first group's tour (30 minutes, with
  instructor 0) ends at 10:30 and the break of instructor 0 ends at 11:00, while the
  second group's tour (60 minutes, with instructor 1) is still under way.
\<close>

definition single_slide_run :: Single_Slide where
  "single_slide_run =
     fst (try_start_single (at_time 10 1)
            (enter_queue teens 2 (at_time 10 1)
               (fst (try_start_single (at_time 10 0)
                       (enter_queue teens 1 (at_time 10 0) Single_Slide_init)))))"

definition snorkel_guests :: store where
  "snorkel_guests v =
     \<lparr> kind = TeenGroup, group_size = 6, rating = 10, has_express_pass = (3 \<le> v),
       kids_ages = [], min_age = 14, visited_facilities = [], is_shared_tube = False,
       tube_partner = None, active_subgroups_count = 1 \<rparr>"

definition snorkel_run :: Snorkel_Tour where
  "snorkel_run =
     snorkel_break_end snorkel_guests 0 (at_time 11 0) 30
       (snorkel_end 1 0 (at_time 10 30)
          (snorkel_arrive snorkel_guests 7 (at_time 10 6) 30
             (snorkel_arrive snorkel_guests 6 (at_time 10 5) 30
                (snorkel_arrive snorkel_guests 5 (at_time 10 4) 30
                   (snorkel_arrive snorkel_guests 4 (at_time 10 3) 30
                      (snorkel_arrive snorkel_guests 3 (at_time 10 2) 30
                         (snorkel_arrive snorkel_guests 2 (at_time 10 1) 60
                            (snorkel_arrive snorkel_guests 1 (at_time 10 0) 30
                               Snorkel_Tour_init))))))))"

section \<open>The states of one facility in a run\<close>

text \<open>
  \<open>reachable init step s\<close>: the state \<open>s\<close> is reached from \<open>init\<close> by finitely many
  steps. A state is the store of the visitors with one facility. The steps are what the
  event handlers do to that facility: an arrival (\<^verbatim>\<open>ArriveAtFacilityEvent\<close>), the end of
  a visit (\<^verbatim>\<open>EndFacilityEvent\<close>, with \<^verbatim>\<open>release_tubes\<close> on the Pipes River), an
  abandonment (\<^verbatim>\<open>AbandonmentEvent\<close>), the end of a day (\<^verbatim>\<open>EndOfDayEvent\<close>), and
  anything that happens elsewhere in the park, which leaves the facility as it is and may
  change the store. No statement of the source assigns \<^verbatim>\<open>group_size\<close> outside a
  constructor, so a step elsewhere keeps the group size of the visitors who are in
  service; on the Pipes River the store may change in any way.
\<close>

inductive reachable :: "'s \<Rightarrow> ('s \<Rightarrow> 's \<Rightarrow> bool) \<Rightarrow> 's \<Rightarrow> bool"
  for init :: 's and step :: "'s \<Rightarrow> 's \<Rightarrow> bool" where
  initial: "reachable init step init"
| after: "reachable init step s \<Longrightarrow> step s s' \<Longrightarrow> reachable init step s'"

inductive pool_step ::
  "store \<times> 'a Facility_scheme \<Rightarrow> store \<times> 'a Facility_scheme \<Rightarrow> bool" where
  arrive: "pool_step (st, f) (st, fst (try_start_pool st t (enter_queue st visitor t f)))"
| finish: "pool_step (st, f) (st, leave_service visitor f)"
| abandon: "pool_step (st, f) (st, abandon_queue visitor t f)"
| end_of_day: "pool_step (st, f) (st, end_of_day t f)"
| elsewhere: "\<forall>v \<in> set (users_in_service f). group_size (st' v) = group_size (st v)
                \<Longrightarrow> pool_step (st, f) (st', f)"

inductive slide_step :: "store \<times> Pipes_Slide \<Rightarrow> store \<times> Pipes_Slide \<Rightarrow> bool" where
  arrive: "slide_step (st, f)
             (st, fst (try_start_slide st t duration (enter_queue st visitor t f)))"
| finish: "slide_step (st, f) (st, leave_service visitor f)"
| abandon: "slide_step (st, f) (st, abandon_queue visitor t f)"
| end_of_day: "slide_step (st, f) (st, end_of_day t f)"
| elsewhere: "\<forall>v \<in> set (users_in_service f). group_size (st' v) = group_size (st v)
                \<Longrightarrow> slide_step (st, f) (st', f)"

inductive river_move :: "store \<times> Pipes_River \<Rightarrow> store \<times> Pipes_River \<Rightarrow> bool" where
  arrive: "try_start_river st t (enter_queue st visitor t f) = (st1, f1, entering)
             \<Longrightarrow> river_move (st, f) (st1, f1)"
| finish: "river_move (st, f) (st, end_facility_river st visitor f)"
| abandon: "river_move (st, f) (st, abandon_queue visitor t f)"
| end_of_day: "river_move (st, f) (st, end_of_day t f)"
| elsewhere: "river_move (st, f) (st', f)"

text \<open>
  On the Snorkel Tour the handlers call \<^verbatim>\<open>try_start_facility\<close> in the middle of their
  work, so the steps are the single operations that the handlers are made of: a visitor
  joins a queue, \<^verbatim>\<open>try_start_facility\<close> runs, a visitor leaves the people in service,
  \<^verbatim>\<open>finish_tour\<close>, \<^verbatim>\<open>finish_break\<close>, \<^verbatim>\<open>finish_lunch\<close>, an abandonment, the end of a
  day, and anything elsewhere in the park. Every state in which a handler calls
  \<^verbatim>\<open>try_start_facility\<close> is reached by such steps.
\<close>

inductive snorkel_move :: "store \<times> Snorkel_Tour \<Rightarrow> store \<times> Snorkel_Tour \<Rightarrow> bool" where
  enqueue: "snorkel_move (st, f) (st, enter_queue st visitor t f)"
| start: "snorkel_move (st, f) (st, fst (try_start_snorkel st t duration f))"
| leave: "snorkel_move (st, f) (st, leave_service visitor f)"
| tour_end: "snorkel_move (st, f) (st, finish_tour instructor_idx t f)"
| break_end: "snorkel_move (st, f) (st, snd (finish_break instructor_idx t f))"
| lunch_end: "snorkel_move (st, f) (st, finish_lunch instructor_idx f)"
| abandon: "snorkel_move (st, f) (st, abandon_queue visitor t f)"
| end_of_day: "snorkel_move (st, f) (st, end_of_day t f)"
| elsewhere: "snorkel_move (st, f) (st', f)"

text \<open>
  States after one or two arrivals: teen group 1 (5 people) at the Wave Pool and at the
  Kids Pool; groups 1 and 4 (5 and 3 people) at the Big Pipes Slide; group 4 at the Small
  Pipes Slide; group 2 (2 people) at the Pipes River.
\<close>

definition wave_pool_after :: Facility where
  "wave_pool_after =
     fst (try_start_pool teens (at_time 10 0) (enter_queue teens 1 (at_time 10 0) (Waves_Pool_init 80)))"

definition kids_pool_after :: Kids_Pool where
  "kids_pool_after =
     fst (try_start_pool teens (at_time 10 0) (enter_queue teens 1 (at_time 10 0) Kids_Pool_init))"

definition big_pipes_after :: Pipes_Slide where
  "big_pipes_after =
     fst (try_start_slide teens (at_time 10 1) 5
            (enter_queue teens 4 (at_time 10 1)
               (fst (try_start_slide teens (at_time 10 0) 5
                       (enter_queue teens 1 (at_time 10 0) Big_Pipes_Slide_init)))))"

definition small_pipes_after :: Pipes_Slide where
  "small_pipes_after =
     fst (try_start_slide teens (at_time 10 0) 1
            (enter_queue teens 4 (at_time 10 0) Small_Pipes_Slide_init))"

definition river_after :: "store \<times> Pipes_River" where
  "river_after =
     (case try_start_river teens (at_time 10 0) (enter_queue teens 2 (at_time 10 0) Pipes_River_init) of
        (st1, f1, entering) \<Rightarrow> (st1, f1))"

text \<open>The Snorkel Tour after teen group 1 has joined the regular queue at 10:00.\<close>

definition snorkel_queued :: Snorkel_Tour where
  "snorkel_queued = enter_queue teens 1 (at_time 10 0) Snorkel_Tour_init"

section \<open>Daily statistics of an idle queue\<close>

text \<open>
  C9. For a queue without traffic during the day (no waiting time recorded, accumulated
  queue-length area zero), \<^verbatim>\<open>calc_daily_statistics\<close> appends 0 to the daily average
  queue lengths and 0 to the daily average waiting times, and resets the per-day
  counters (area, change times, lengths, waiting times) to the values of a fresh queue;
  the waiting visitors and the active hours are untouched.
\<close>

theorem calc_daily_statistics_idle:
  assumes "waiting_times q = []" and "total_queue_length_time q = 0"
  shows "daily_avg_queue_lengths (calc_daily_statistics q) = daily_avg_queue_lengths q @ [0]
       \<and> daily_avg_waiting_times (calc_daily_statistics q) = daily_avg_waiting_times q @ [0]
       \<and> total_queue_length_time (calc_daily_statistics q)
           = total_queue_length_time QueueServer_init
       \<and> queue_change_times (calc_daily_statistics q) = queue_change_times QueueServer_init
       \<and> queue_lengths (calc_daily_statistics q) = queue_lengths QueueServer_init
       \<and> waiting_times (calc_daily_statistics q) = waiting_times QueueServer_init
       \<and> server_queue (calc_daily_statistics q) = server_queue q
       \<and> active_hours (calc_daily_statistics q) = active_hours q"
  using assms by (simp add: calc_daily_statistics_def QueueServer_init_def)

theorem calc_daily_statistics_idle_witness:
  "waiting_times QueueServer_init = [] \<and> total_queue_length_time QueueServer_init = 0
   \<and> calc_daily_statistics QueueServer_init
       = QueueServer_init\<lparr>daily_avg_queue_lengths := [0], daily_avg_waiting_times := [0]\<rparr>"
  using calc_daily_statistics_idle [of QueueServer_init]
  by (simp add: calc_daily_statistics_def QueueServer_init_def)

section \<open>Batches of the Big and Small Pipes Slides\<close>

lemma record_queue_length_fields:
  "server_queue (record_queue_length t q) = server_queue q"
  "waiting_times (record_queue_length t q) = waiting_times q"
  "active_hours (record_queue_length t q) = active_hours q"
  "daily_avg_queue_lengths (record_queue_length t q) = daily_avg_queue_lengths q"
  "daily_avg_waiting_times (record_queue_length t q) = daily_avg_waiting_times q"
  "length (queue_lengths (record_queue_length t q)) = Suc (length (queue_lengths q))"
  "length (queue_change_times (record_queue_length t q)) = Suc (length (queue_change_times q))"
  by (simp_all add: record_queue_length_def Let_def)

lemma pop_Cons:
  assumes "server_queue q = e # rest"
  shows "server_queue (snd (pop t q)) = rest"
    and "waiting_times (snd (pop t q)) = waiting_times q @ [wait_minutes t e]"
    and "length (queue_lengths (snd (pop t q))) = Suc (length (queue_lengths q))"
    and "length (queue_change_times (snd (pop t q))) = Suc (length (queue_change_times q))"
  using assms by (simp_all add: pop_def Let_def record_queue_length_fields wait_minutes_def)

lemma insert_at_0:
  "server_queue (insert_at 0 v ta q) = (v, ta) # server_queue q"
  "waiting_times (insert_at 0 v ta q) = waiting_times q"
  "length (queue_lengths (insert_at 0 v ta q)) = Suc (length (queue_lengths q))"
  "length (queue_change_times (insert_at 0 v ta q)) = Suc (length (queue_change_times q))"
  by (simp_all add: insert_at_def record_queue_length_fields)

lemma rollback_fields:
  "server_queue (rollback temp q) = temp @ server_queue q"
  "waiting_times (rollback temp q) = waiting_times q"
  "length (queue_lengths (rollback temp q)) = length (queue_lengths q) + length temp"
  "length (queue_change_times (rollback temp q)) = length (queue_change_times q) + length temp"
  unfolding rollback_def
  by (induction temp arbitrary: q rule: rev_induct) (auto simp: insert_at_0)

lemma fill_batch_props:
  assumes "fill_batch st tsize t q temp batch bs = (r, q', temp', batch', bs')"
  shows "\<exists>k. temp' = temp @ take k (server_queue q)
           \<and> server_queue q' = drop k (server_queue q)
           \<and> batch' = batch @ map fst (take k (server_queue q))
           \<and> bs' = bs + headcount st (map fst (take k (server_queue q)))
           \<and> waiting_times q' = waiting_times q @ map (wait_minutes t) (take k (server_queue q))
           \<and> length (queue_lengths q') = length (queue_lengths q) + k
           \<and> length (queue_change_times q') = length (queue_change_times q) + k
           \<and> k \<le> length (server_queue q)
           \<and> (r \<longrightarrow> bs' = tsize)
           \<and> (\<not> r \<and> bs < tsize \<longrightarrow> bs' < tsize)
           \<and> (0 < k \<longrightarrow> bs < tsize)
           \<and> (\<not> r \<longrightarrow> k = length (server_queue q) \<or> tsize \<le> bs'
                  \<or> tsize < bs' + group_size (st (fst (server_queue q ! k))))"
  using assms
proof (induction st tsize t q temp batch bs rule: fill_batch.induct)
  case (1 st tsize t q temp batch bs)
  show ?case
  proof (cases "server_queue q")
    case Nil
    with "1.prems" show ?thesis
      by (simp add: fill_batch.simps [of st tsize t q] headcount_def)
  next
    case (Cons e rest)
    obtain visitor arrived where e: "e = (visitor, arrived)" by (cases e)
    let ?q1 = "snd (pop t q)"
    let ?bs1 = "bs + group_size (st visitor)"
    show ?thesis
    proof (cases "bs < tsize \<and> ?bs1 \<le> tsize")
      case False
      with "1.prems" Cons e have "q' = q \<and> temp' = temp \<and> batch' = batch \<and> bs' = bs \<and> \<not> r"
        by (auto simp: fill_batch.simps [of st tsize t q] split: if_splits)
      with False Cons e show ?thesis
        by (intro exI [of _ 0]) (auto simp: headcount_def)
    next
      case True
      show ?thesis
      proof (cases "?bs1 = tsize")
        case full: True
        with "1.prems" Cons e True
        have "q' = ?q1 \<and> temp' = temp @ [e] \<and> batch' = batch @ [visitor] \<and> bs' = ?bs1 \<and> r"
          by (auto simp: fill_batch.simps [of st tsize t q] Let_def split: if_splits)
        with full Cons e True show ?thesis
          by (intro exI [of _ 1]) (simp add: headcount_def pop_Cons [OF Cons])
      next
        case notfull: False
        with "1.prems" Cons e True
        have rec: "fill_batch st tsize t ?q1 (temp @ [(visitor, arrived)]) (batch @ [visitor]) ?bs1
                   = (r, q', temp', batch', bs')"
          by (auto simp: fill_batch.simps [of st tsize t q] Let_def split: if_splits)
        from True have lt: "bs < tsize" and le: "?bs1 \<le> tsize" by simp_all
        from "1.IH" [OF Cons e [symmetric] lt le refl refl refl refl notfull rec]
        obtain k where k: "temp' = (temp @ [e]) @ take k (server_queue ?q1)"
            "server_queue q' = drop k (server_queue ?q1)"
            "batch' = (batch @ [visitor]) @ map fst (take k (server_queue ?q1))"
            "bs' = ?bs1 + headcount st (map fst (take k (server_queue ?q1)))"
            "waiting_times q' = waiting_times ?q1 @ map (wait_minutes t) (take k (server_queue ?q1))"
            "length (queue_lengths q') = length (queue_lengths ?q1) + k"
            "length (queue_change_times q') = length (queue_change_times ?q1) + k"
            "k \<le> length (server_queue ?q1)"
            "r \<longrightarrow> bs' = tsize"
            "\<not> r \<and> ?bs1 < tsize \<longrightarrow> bs' < tsize"
            "\<not> r \<longrightarrow> k = length (server_queue ?q1) \<or> tsize \<le> bs'
                  \<or> tsize < bs' + group_size (st (fst (server_queue ?q1 ! k)))"
          unfolding e by blast
        from k Cons e lt le notfull show ?thesis
          by (intro exI [of _ "Suc k"]) (auto simp: headcount_def pop_Cons [OF Cons])
      qed
    qed
  qed
qed

lemma headcount_append: "headcount st (xs @ ys) = headcount st xs + headcount st ys"
  by (simp add: headcount_def)

text \<open>
  C5. For the Big and the Small Pipes Slide, \<^verbatim>\<open>get_next_batch\<close> returns either the empty
  list, and then both queues hold the same visitors with the same arrival times in the
  same order as before, or a batch whose group sizes sum to exactly the tube size, made
  of a prefix of the express queue followed by a prefix of the regular queue, which are
  removed from the queues; the regular queue is touched only when the express queue is
  exhausted or its next group would overshoot. The in-service list is not changed.
\<close>

theorem get_next_batch_exact_or_rollback:
  assumes "get_next_batch st t f = (batch, f')"
  shows "users_in_service f' = users_in_service f \<and> tube_size f' = tube_size f \<and>
         ((batch = []
            \<and> server_queue (queue_express f') = server_queue (queue_express f)
            \<and> server_queue (queue_regular f') = server_queue (queue_regular f))
          \<or> (headcount st batch = tube_size f
            \<and> (\<exists>i j. batch = map fst (take i (server_queue (queue_express f)))
                            @ map fst (take j (server_queue (queue_regular f)))
                   \<and> server_queue (queue_express f') = drop i (server_queue (queue_express f))
                   \<and> server_queue (queue_regular f') = drop j (server_queue (queue_regular f))
                   \<and> (j = 0 \<or> i = length (server_queue (queue_express f))
                        \<or> tube_size f
                            < headcount st (map fst (take (Suc i) (server_queue (queue_express f))))))))"
proof (cases "total_in_queue st f < tube_size f")
  case True
  with assms show ?thesis by (simp add: get_next_batch_def)
next
  case enough: False
  obtain r1 qe temp_e batch1 bs1
    where s1: "fill_batch st (tube_size f) t (queue_express f) [] [] 0 = (r1, qe, temp_e, batch1, bs1)"
    by (metis prod_cases5)
  from fill_batch_props [OF s1]
  obtain i where i: "temp_e = take i (server_queue (queue_express f))"
      "server_queue qe = drop i (server_queue (queue_express f))"
      "batch1 = map fst (take i (server_queue (queue_express f)))"
      "bs1 = headcount st (map fst (take i (server_queue (queue_express f))))"
      "i \<le> length (server_queue (queue_express f))"
      "r1 \<longrightarrow> bs1 = tube_size f"
      "\<not> r1 \<longrightarrow> i = length (server_queue (queue_express f)) \<or> tube_size f \<le> bs1
         \<or> tube_size f < bs1 + group_size (st (fst (server_queue (queue_express f) ! i)))"
    by auto
  show ?thesis
  proof (cases r1)
    case True
    with assms enough s1 have "batch = batch1" "f' = f\<lparr>queue_express := qe\<rparr>"
      by (simp_all add: get_next_batch_def)
    with True i show ?thesis
      apply (intro conjI)
        apply simp
       apply simp
      apply (rule disjI2)
      apply (rule conjI, simp)
      apply (rule exI [of _ i], rule exI [of _ 0])
      apply simp
      done
  next
    case no1: False
    obtain r2 qr temp_r batch2 bs2
      where s2: "fill_batch st (tube_size f) t (queue_regular f) [] batch1 bs1
                 = (r2, qr, temp_r, batch2, bs2)"
      by (metis prod_cases5)
    from fill_batch_props [OF s2]
    obtain j where j: "temp_r = take j (server_queue (queue_regular f))"
        "server_queue qr = drop j (server_queue (queue_regular f))"
        "batch2 = batch1 @ map fst (take j (server_queue (queue_regular f)))"
        "bs2 = bs1 + headcount st (map fst (take j (server_queue (queue_regular f))))"
        "r2 \<longrightarrow> bs2 = tube_size f"
        "0 < j \<longrightarrow> bs1 < tube_size f"
      by auto
    show ?thesis
    proof (cases r2)
      case True
      with assms enough s1 s2 no1
      have res: "batch = batch2" "f' = f\<lparr>queue_express := qe, queue_regular := qr\<rparr>"
        by (simp_all add: get_next_batch_def)
      have stop: "j = 0 \<or> i = length (server_queue (queue_express f))
                \<or> tube_size f < headcount st (map fst (take (Suc i) (server_queue (queue_express f))))"
      proof (cases "j = 0 \<or> i = length (server_queue (queue_express f))")
        case True
        then show ?thesis by blast
      next
        case False
        with i(5) have lt: "i < length (server_queue (queue_express f))" by simp
        from False j(6) have "bs1 < tube_size f" by simp
        with i(7) no1 False
        have "tube_size f < bs1 + group_size (st (fst (server_queue (queue_express f) ! i)))"
          by simp
        with lt i(4) show ?thesis
          by (simp add: take_Suc_conv_app_nth headcount_def)
      qed
      from res True i j stop show ?thesis
        apply (intro conjI)
          apply simp
         apply simp
        apply (rule disjI2)
        apply (rule conjI, simp add: headcount_append)
        apply (rule exI [of _ i], rule exI [of _ j])
        apply simp
        done
    next
      case False
      with assms enough s1 s2 no1
      have "batch = []"
        "f' = f\<lparr>queue_express := rollback temp_e qe, queue_regular := rollback temp_r qr\<rparr>"
        by (simp_all add: get_next_batch_def)
      with i j show ?thesis
        by (simp add: rollback_fields)
    qed
  qed
qed

lemmas scenario_defs =
  get_next_batch_def slide_524_def slide_3_524_def slide_524_rolled_back_def teens_def
  Big_Pipes_Slide_init_def add_def QueueServer_init_def record_queue_length_def
  total_in_queue_def headcount_def visitors_def fill_batch.simps pop_def qsize_def Let_def
  rollback_def insert_at_def total_seconds_def at_time_def wait_minutes_def

theorem get_next_batch_exact_or_rollback_witness:
  "get_next_batch teens (at_time 10 5) slide_3_524
     = ([4, 1], snd (get_next_batch teens (at_time 10 5) slide_3_524))
   \<and> headcount teens [4, 1] = tube_size slide_3_524
   \<and> [4, 1] = map fst (take 1 (server_queue (queue_express slide_3_524)))
                @ map fst (take 1 (server_queue (queue_regular slide_3_524)))
   \<and> visitors (queue_express (snd (get_next_batch teens (at_time 10 5) slide_3_524))) = []
   \<and> visitors (queue_regular (snd (get_next_batch teens (at_time 10 5) slide_3_524))) = [2, 3]
   \<and> users_in_service (snd (get_next_batch teens (at_time 10 5) slide_3_524))
       = users_in_service slide_3_524"
proof -
  have "fst (get_next_batch teens (at_time 10 5) slide_3_524) = [4, 1]"
    by (simp add: scenario_defs)
  then have h: "get_next_batch teens (at_time 10 5) slide_3_524
                  = ([4, 1], snd (get_next_batch teens (at_time 10 5) slide_3_524))"
    by (simp add: prod_eq_iff)
  have q: "visitors (queue_express (snd (get_next_batch teens (at_time 10 5) slide_3_524))) = []"
      "visitors (queue_regular (snd (get_next_batch teens (at_time 10 5) slide_3_524))) = [2, 3]"
      "headcount teens [4, 1] = tube_size slide_3_524"
      "[4, 1] = map fst (take 1 (server_queue (queue_express slide_3_524)))
                @ map fst (take 1 (server_queue (queue_regular slide_3_524)))"
    by (simp_all add: scenario_defs)
  from get_next_batch_exact_or_rollback [OF h] h q show ?thesis
    by simp
qed

text \<open>
  C10. When \<^verbatim>\<open>get_next_batch\<close> runs its loops and returns the empty list (the rollback),
  the visitors of both queues and their order are restored, but the statistics are not:
  with \<open>ke\<close> and \<open>kr\<close> the numbers of groups popped from the express and the regular
  queue (the longest prefixes that fit under the tube size), each queue has one waiting
  time per popped group appended to \<^verbatim>\<open>waiting_times\<close>, and two samples per popped group
  appended to \<^verbatim>\<open>queue_lengths\<close> and \<^verbatim>\<open>queue_change_times\<close> (one at the pop, one at the
  re-insertion).
\<close>

theorem get_next_batch_rollback_statistics:
  assumes "get_next_batch st t f = ([], f')"
    and "tube_size f \<le> total_in_queue st f" and "0 < tube_size f"
  shows "\<exists>ke kr.
           headcount st (map fst (take ke (server_queue (queue_express f))))
             + headcount st (map fst (take kr (server_queue (queue_regular f)))) < tube_size f
         \<and> server_queue (queue_express f') = server_queue (queue_express f)
         \<and> server_queue (queue_regular f') = server_queue (queue_regular f)
         \<and> waiting_times (queue_express f')
             = waiting_times (queue_express f)
                 @ map (wait_minutes t) (take ke (server_queue (queue_express f)))
         \<and> waiting_times (queue_regular f')
             = waiting_times (queue_regular f)
                 @ map (wait_minutes t) (take kr (server_queue (queue_regular f)))
         \<and> length (queue_lengths (queue_express f'))
             = length (queue_lengths (queue_express f)) + 2 * ke
         \<and> length (queue_lengths (queue_regular f'))
             = length (queue_lengths (queue_regular f)) + 2 * kr
         \<and> length (queue_change_times (queue_express f'))
             = length (queue_change_times (queue_express f)) + 2 * ke
         \<and> length (queue_change_times (queue_regular f'))
             = length (queue_change_times (queue_regular f)) + 2 * kr
         \<and> ke \<le> qsize (queue_express f) \<and> kr \<le> qsize (queue_regular f)
         \<and> (ke = qsize (queue_express f)
              \<or> tube_size f
                  < headcount st (map fst (take (Suc ke) (server_queue (queue_express f)))))
         \<and> (kr = qsize (queue_regular f)
              \<or> tube_size f
                  < headcount st (map fst (take ke (server_queue (queue_express f))))
                    + headcount st (map fst (take (Suc kr) (server_queue (queue_regular f)))))"
proof -
  let ?sqe = "server_queue (queue_express f)" and ?sqr = "server_queue (queue_regular f)"
  obtain r1 qe temp_e batch1 bs1
    where s1: "fill_batch st (tube_size f) t (queue_express f) [] [] 0 = (r1, qe, temp_e, batch1, bs1)"
    by (metis prod_cases5)
  obtain r2 qr temp_r batch2 bs2
    where s2: "fill_batch st (tube_size f) t (queue_regular f) [] batch1 bs1
               = (r2, qr, temp_r, batch2, bs2)"
    by (metis prod_cases5)
  from fill_batch_props [OF s1] assms(3)
  obtain ke where ke: "temp_e = take ke ?sqe" "server_queue qe = drop ke ?sqe"
      "batch1 = map fst (take ke ?sqe)" "bs1 = headcount st (map fst (take ke ?sqe))"
      "waiting_times qe = waiting_times (queue_express f) @ map (wait_minutes t) (take ke ?sqe)"
      "length (queue_lengths qe) = length (queue_lengths (queue_express f)) + ke"
      "length (queue_change_times qe) = length (queue_change_times (queue_express f)) + ke"
      "ke \<le> length ?sqe" "r1 \<longrightarrow> bs1 = tube_size f" "\<not> r1 \<longrightarrow> bs1 < tube_size f"
      "\<not> r1 \<longrightarrow> ke = length ?sqe \<or> tube_size f \<le> bs1
         \<or> tube_size f < bs1 + group_size (st (fst (?sqe ! ke)))"
    by auto
  from fill_batch_props [OF s2]
  obtain kr where kr: "temp_r = take kr ?sqr" "server_queue qr = drop kr ?sqr"
      "batch2 = batch1 @ map fst (take kr ?sqr)" "bs2 = bs1 + headcount st (map fst (take kr ?sqr))"
      "waiting_times qr = waiting_times (queue_regular f) @ map (wait_minutes t) (take kr ?sqr)"
      "length (queue_lengths qr) = length (queue_lengths (queue_regular f)) + kr"
      "length (queue_change_times qr) = length (queue_change_times (queue_regular f)) + kr"
      "kr \<le> length ?sqr" "r2 \<longrightarrow> bs2 = tube_size f" "\<not> r2 \<and> bs1 < tube_size f \<longrightarrow> bs2 < tube_size f"
      "\<not> r2 \<longrightarrow> kr = length ?sqr \<or> tube_size f \<le> bs2
         \<or> tube_size f < bs2 + group_size (st (fst (?sqr ! kr)))"
    by auto
  have hc: "headcount st batch1 = bs1" "headcount st batch2 = bs2"
    using ke(3,4) kr(3,4) by (simp_all add: headcount_append)
  have nonempty: "r1 \<longrightarrow> batch1 \<noteq> []" "r2 \<longrightarrow> batch2 \<noteq> []"
  proof -
    have "headcount st [] = 0" by (simp add: headcount_def)
    with hc ke(9) kr(9) assms(3) show "r1 \<longrightarrow> batch1 \<noteq> []" "r2 \<longrightarrow> batch2 \<noteq> []"
      by force+
  qed
  from assms s1 s2 nonempty have no: "\<not> r1" "\<not> r2"
    and f': "f' = f\<lparr>queue_express := rollback temp_e qe, queue_regular := rollback temp_r qr\<rparr>"
    by (auto simp: get_next_batch_def split: if_splits)
  from no ke(10) kr(10) have small: "bs1 < tube_size f" "bs2 < tube_size f" by simp_all
  have stop_e: "ke = qsize (queue_express f)
        \<or> tube_size f < headcount st (map fst (take (Suc ke) ?sqe))"
    using ke(4,8,11) no small
    by (cases "ke = length ?sqe") (auto simp: qsize_def take_Suc_conv_app_nth headcount_def)
  have stop_r: "kr = qsize (queue_regular f)
        \<or> tube_size f < headcount st (map fst (take ke ?sqe))
                          + headcount st (map fst (take (Suc kr) ?sqr))"
    using ke(4) kr(4,8,11) no small
    by (cases "kr = length ?sqr") (auto simp: qsize_def take_Suc_conv_app_nth headcount_def)
  show ?thesis
    apply (rule exI [of _ ke], rule exI [of _ kr])
    using f' ke kr small stop_e stop_r
    by (simp add: rollback_fields qsize_def)
qed


theorem get_next_batch_rollback_statistics_witness:
  "get_next_batch teens (at_time 10 5) slide_524 = ([], slide_524_rolled_back)
   \<and> tube_size slide_524 \<le> total_in_queue teens slide_524 \<and> 0 < tube_size slide_524
   \<and> visitors (queue_regular slide_524_rolled_back) = visitors (queue_regular slide_524)
   \<and> waiting_times (queue_regular slide_524) = []
   \<and> waiting_times (queue_regular slide_524_rolled_back) = [5, 4]
   \<and> (\<exists>ke kr.
         server_queue (queue_express slide_524_rolled_back)
           = server_queue (queue_express slide_524)
       \<and> server_queue (queue_regular slide_524_rolled_back)
           = server_queue (queue_regular slide_524)
       \<and> waiting_times (queue_regular slide_524_rolled_back)
           = waiting_times (queue_regular slide_524)
               @ map (wait_minutes (at_time 10 5))
                   (take kr (server_queue (queue_regular slide_524)))
       \<and> length (queue_lengths (queue_regular slide_524_rolled_back))
           = length (queue_lengths (queue_regular slide_524)) + 2 * kr
       \<and> length (queue_lengths (queue_express slide_524_rolled_back))
           = length (queue_lengths (queue_express slide_524)) + 2 * ke)"
proof -
  have h: "get_next_batch teens (at_time 10 5) slide_524 = ([], slide_524_rolled_back)"
    by (simp add: scenario_defs)
  have e: "tube_size slide_524 \<le> total_in_queue teens slide_524" "0 < tube_size slide_524"
      "visitors (queue_regular slide_524_rolled_back) = visitors (queue_regular slide_524)"
      "waiting_times (queue_regular slide_524) = []"
      "waiting_times (queue_regular slide_524_rolled_back) = [5, 4]"
    by (simp_all add: scenario_defs)
  from get_next_batch_rollback_statistics [OF h e(1) e(2)] h e show ?thesis
    by blast
qed

section \<open>The restricted window of the Snorkel Tour\<close>

lemma div_of_mod_mult:
  fixes t c n :: int
  assumes "0 < c" "0 \<le> n"
  shows "t mod (c * n) div c = t div c mod n"
proof -
  have "t mod (c * n) = c * (t div c mod n) + t mod c"
    using assms by (simp add: zmod_zmult2_eq)
  then have "t mod (c * n) div c = (c * (t div c mod n) + t mod c) div c" by simp
  also have "\<dots> = t div c mod n + t mod c div c"
    using assms by simp
  also have "t mod c div c = 0"
    using assms by (simp add: div_pos_pos_trivial)
  finally show ?thesis by simp
qed

text \<open>The minutes that the source computes are the whole minutes since midnight.\<close>

lemma current_minutes_time_of_day:
  "current_minutes t = (t mod 86400000000) div 60000000"
proof -
  define m where "m = t div 60000000"
  have h: "t div 3600000000 = m div 60"
    unfolding m_def by (simp add: zdiv_zmult2_eq)
  have "(t mod 86400000000) div 60000000 = (t mod (60000000 * 1440)) div 60000000" by simp
  also have "\<dots> = m mod 1440"
    unfolding m_def by (subst div_of_mod_mult) simp_all
  finally have r: "(t mod 86400000000) div 60000000 = m mod 1440" .
  have "m mod (60 * 24) = 60 * (m div 60 mod 24) + m mod 60"
    by (rule zmod_zmult2_eq) simp
  then have "m mod 1440 = 60 * (m div 60 mod 24) + m mod 60" by simp
  then show ?thesis
    unfolding current_minutes_def hour_def minute_def h r m_def [symmetric] by simp
qed

lemma restricted_window:
  assumes "at_time 12 20 \<le> t mod 86400000000" and "t mod 86400000000 < at_time 14 0"
  shows "12 * 60 + 20 \<le> current_minutes t \<and> current_minutes t < 14 * 60"
proof -
  define x where "x = t mod 86400000000"
  from assms have a: "740 * 60000000 \<le> x" "x < 840 * 60000000"
    by (simp_all add: at_time_def x_def)
  from a(1) have "740 * 60000000 div 60000000 \<le> x div 60000000"
    by (rule zdiv_mono1) simp
  moreover from a(2) have "x div 60000000 < 840"
    by (simp add: div_less_iff_less_mult)
  ultimately show ?thesis
    unfolding current_minutes_time_of_day x_def [symmetric] by simp
qed

text \<open>
  C6. At a time \<open>t\<close> whose time of day (the microseconds since midnight) is at least
  12:20 and before 14:00, in any state of the Snorkel Tour, with any visitors waiting
  and any sampled duration, the availability check returns no instructor and the
  Snorkel branch of \<^verbatim>\<open>try_start_facility\<close>, the only caller of \<^verbatim>\<open>start_tour\<close>, leaves
  the facility as it is and adds no event: no tour starts.
\<close>

theorem no_tour_in_restricted_window:
  assumes "at_time 12 20 \<le> t mod 86400000000" and "t mod 86400000000 < at_time 14 0"
  shows "get_available_instructor t f = None \<and> try_start_snorkel st t duration f = (f, [])"
  using restricted_window [OF assms]
  by (simp add: get_available_instructor_def try_start_snorkel_def Let_def)

lemma replicate_2: "replicate 2 x = [x, x]"
  by (simp add: numeral_2_eq_2)

lemmas snorkel_defs =
  replicate_2 try_start_snorkel_def get_available_instructor_def current_minutes_def hour_def minute_def
  at_time_def snorkel_waiting_def Snorkel_Tour_init_def add_def QueueServer_init_def
  record_queue_length_def qsize_def Let_def fill_tour.simps pop_def total_seconds_def
  start_tour_def timedelta_minutes_def teens_def

text \<open>At 12:19 the waiting group starts a tour with instructor 0.\<close>

lemma tour_starts_before_window:
  "snd (try_start_snorkel teens (at_time 12 19) 30 snorkel_waiting)
     = [(at_time 12 49, 1, Some 0)]"
  by (simp add: snorkel_defs)

theorem no_tour_in_restricted_window_witness:
  "at_time 12 20 \<le> at_time 12 20 mod 86400000000
   \<and> at_time 12 20 mod 86400000000 < at_time 14 0
   \<and> get_available_instructor (at_time 12 20) snorkel_waiting = None
   \<and> try_start_snorkel teens (at_time 12 20) 30 snorkel_waiting = (snorkel_waiting, [])"
proof -
  have h: "at_time 12 20 \<le> at_time 12 20 mod 86400000000"
      "at_time 12 20 mod 86400000000 < at_time 14 0"
    by (simp_all add: at_time_def)
  from no_tour_in_restricted_window [OF h, of snorkel_waiting teens 30] h show ?thesis
    by simp
qed

section \<open>Tube release on the Pipes River\<close>

text \<open>
  C7. On a Pipes River with two seats per tube, the end of service of a visitor that
  shares no tube lowers \<^verbatim>\<open>occupied_tubes\<close> by \<open>\<lceil>group_size / 2\<rceil>\<close> (not below 0, where
  the source clamps). For two visitors \<open>a\<close> and \<open>b\<close> in service that are each other's
  tube partner, the end of service of \<open>a\<close> removes \<open>a\<close> from the in-service list and
  releases nothing, since \<open>b\<close> is still in the list; the end of service of \<open>b\<close> after
  it finds \<open>a\<close> gone and lowers \<^verbatim>\<open>occupied_tubes\<close> by \<open>\<lceil>(s\<^sub>a + s\<^sub>b) / 2\<rceil>\<close>.
\<close>

theorem release_on_end_of_service:
  assumes ppt: "people_per_tube f = 2" and occ: "0 \<le> occupied_tubes f"
  shows "(\<not> is_shared_tube (st v) \<longrightarrow>
            occupied_tubes (end_facility_river st v f)
              = max 0 (occupied_tubes f - \<lceil>(of_nat (group_size (st v)) :: rat) / 2\<rceil>))
       \<and> (is_shared_tube (st a) \<and> tube_partner (st a) = Some b
            \<and> is_shared_tube (st b) \<and> tube_partner (st b) = Some a
            \<and> a \<noteq> b \<and> a \<in> set (users_in_service f) \<and> b \<in> set (users_in_service f)
            \<and> distinct (users_in_service f) \<longrightarrow>
            occupied_tubes (end_facility_river st a f) = occupied_tubes f
          \<and> users_in_service (end_facility_river st a f) = remove1 a (users_in_service f)
          \<and> occupied_tubes (end_facility_river st b (end_facility_river st a f))
              = max 0 (occupied_tubes f
                       - \<lceil>(of_nat (group_size (st a) + group_size (st b)) :: rat) / 2\<rceil>))"
proof (intro conjI impI)
  assume "\<not> is_shared_tube (st v)"
  then show "occupied_tubes (end_facility_river st v f)
              = max 0 (occupied_tubes f - \<lceil>(of_nat (group_size (st v)) :: rat) / 2\<rceil>)"
    using ppt by (simp add: end_facility_river_def release_tubes_def Let_def tubes_for_def)
next
  assume h: "is_shared_tube (st a) \<and> tube_partner (st a) = Some b
            \<and> is_shared_tube (st b) \<and> tube_partner (st b) = Some a
            \<and> a \<noteq> b \<and> a \<in> set (users_in_service f) \<and> b \<in> set (users_in_service f)
            \<and> distinct (users_in_service f)"
  let ?f1 = "end_facility_river st a f"
  from h have b_in: "b \<in> set (remove1 a (users_in_service f))" by simp
  from h b_in occ show 1: "occupied_tubes ?f1 = occupied_tubes f"
    by (simp add: end_facility_river_def release_tubes_def Let_def)
  from h b_in show 2: "users_in_service ?f1 = remove1 a (users_in_service f)"
    by (simp add: end_facility_river_def release_tubes_def Let_def)
  from h have a_out: "a \<notin> set (remove1 b (remove1 a (users_in_service f)))"
    by (simp add: distinct_remove1_removeAll)
  have ppt1: "people_per_tube ?f1 = 2"
    using ppt h b_in by (simp add: end_facility_river_def release_tubes_def Let_def)
  from h b_in a_out 1 2 ppt1
  show "occupied_tubes (end_facility_river st b ?f1)
              = max 0 (occupied_tubes f
                       - \<lceil>(of_nat (group_size (st a) + group_size (st b)) :: rat) / 2\<rceil>)"
    by (simp add: end_facility_river_def [of st b] release_tubes_def [of st b] Let_def
          tubes_for_def add.commute)
qed

lemmas river_defs =
  river_busy_def river_guests_def Pipes_River_init_def end_facility_river_def
  release_tubes_def tubes_for_def Let_def

theorem release_on_end_of_service_witness:
  "people_per_tube river_busy = 2 \<and> 0 \<le> occupied_tubes river_busy
   \<and> \<not> is_shared_tube (river_guests 6)
   \<and> occupied_tubes (end_facility_river river_guests 6 river_busy) = 8
   \<and> is_shared_tube (river_guests 7) \<and> tube_partner (river_guests 7) = Some 8
   \<and> is_shared_tube (river_guests 8) \<and> tube_partner (river_guests 8) = Some 7
   \<and> (7::nat) \<noteq> 8 \<and> 7 \<in> set (users_in_service river_busy)
   \<and> 8 \<in> set (users_in_service river_busy) \<and> distinct (users_in_service river_busy)
   \<and> occupied_tubes (end_facility_river river_guests 7 river_busy) = 10
   \<and> occupied_tubes
        (end_facility_river river_guests 8 (end_facility_river river_guests 7 river_busy)) = 6"
proof -
  have h: "people_per_tube river_busy = 2" "0 \<le> occupied_tubes river_busy"
    by (simp_all add: river_defs)
  have e: "\<not> is_shared_tube (river_guests 6)"
      "is_shared_tube (river_guests 7) \<and> tube_partner (river_guests 7) = Some 8
       \<and> is_shared_tube (river_guests 8) \<and> tube_partner (river_guests 8) = Some 7
       \<and> (7::nat) \<noteq> 8 \<and> 7 \<in> set (users_in_service river_busy)
       \<and> 8 \<in> set (users_in_service river_busy) \<and> distinct (users_in_service river_busy)"
      "occupied_tubes river_busy = 10"
      "group_size (river_guests 6) = 4" "group_size (river_guests 7) = 3"
      "group_size (river_guests 8) = 5"
    by (simp_all add: river_defs)
  from release_on_end_of_service [OF h, of river_guests 6 7 8] h e show ?thesis
    by simp
qed

section \<open>The service time of the Big Pipes Slide\<close>

lemma ln_2_ge_half: "1 / 2 \<le> ln (2::real)"
proof -
  have "ln (1 / 2 :: real) \<le> 1 / 2 - 1"
    by (rule ln_le_minus_one) simp
  then show ?thesis by (simp add: ln_div)
qed

lemma ln_2_le: "ln (2::real) \<le> 17 / 20"
proof -
  have "1 + (17 / 20 :: real) + (17 / 20)\<^sup>2 / 2 \<le> exp (17 / 20)"
    by (rule exp_lower_Taylor_quadratic) simp
  then have "(2::real) \<le> exp (17 / 20)" by (simp add: power2_eq_square)
  then have "ln (2::real) \<le> ln (exp (17 / 20))"
    by (subst ln_le_cancel_iff) simp_all
  then show ?thesis by simp
qed

lemma ln_4096: "ln (1 / 4096 :: real) = - (12 * ln 2)"
proof -
  have "(4096::real) = 2 ^ 12" by simp
  then have "ln (4096::real) = 12 * ln 2" by (simp only: ln_realpow)
  then show ?thesis by (simp add: ln_div)
qed

text \<open>
  C8, as stated, fails: with the draws \<open>1/4096\<close> and \<open>1/2\<close> the Big Pipes sampler
  returns a negative duration, after two draws and no more.
\<close>

theorem big_pipes_duration_negative:
  "sample_big_pipes_slide_duration low_draws 0 = Inr (4.8 - 1.8322 * sqrt (24 * ln 2), 2)
   \<and> 4.8 - 1.8322 * sqrt (24 * ln 2) < (0::real)"
proof
  have z: "\<not> - 2 * ln (1 / 4096 :: real) < 0"
    using ln_2_ge_half by (simp add: ln_4096)
  show "sample_big_pipes_slide_duration low_draws 0 = Inr (4.8 - 1.8322 * sqrt (24 * ln 2), 2)"
    using z
    by (simp add: sample_big_pipes_slide_duration_def sample_normal_def sample_uniform_def
          low_draws_def Let_def ln_4096)
  have "(3::real) = sqrt 9" by simp
  also have "\<dots> \<le> sqrt (24 * ln 2)"
    using ln_2_ge_half by (intro real_sqrt_le_mono) simp
  finally have "3 \<le> sqrt (24 * ln (2::real))" .
  then show "4.8 - 1.8322 * sqrt (24 * ln 2) < (0::real)" by simp
qed

lemma sample_big_pipes_value:
  assumes "0 \<le> us n" and "us n \<le> 1"
  shows "sample_big_pipes_slide_duration us n
           = (if us n = 0 then Inl ValueError
              else Inr (4.8 + 1.8322 * (sqrt (- 2 * ln (us n)) * cos (2 * pi * us (Suc n))),
                        n + 2))"
proof (cases "us n = 0")
  case True
  then show ?thesis
    by (simp add: sample_big_pipes_slide_duration_def sample_normal_def sample_uniform_def Let_def)
next
  case False
  with assms have pos: "0 < us n" by simp
  with assms have nn: "\<not> - 2 * ln (us n) < 0" by (simp add: ln_le_zero_iff)
  from pos nn False show ?thesis
    by (simp add: sample_big_pipes_slide_duration_def sample_normal_def sample_uniform_def Let_def)
qed

lemma box_muller_nonneg:
  assumes big: "1 / 16 \<le> u" and le1: "u \<le> (1::real)"
  shows "0 \<le> 4.8 + 1.8322 * (sqrt (- 2 * ln u) * cos (2 * pi * v))"
proof -
  let ?r = "sqrt (- 2 * ln u)" and ?c = "cos (2 * pi * v)"
  from big have pos: "0 < u" by simp
  have "ln (1 / 16 :: real) \<le> ln u"
    using big pos by (subst ln_le_cancel_iff) simp_all
  moreover have "ln (1 / 16 :: real) = - (4 * ln 2)"
  proof -
    have "(16::real) = 2 ^ 4" by simp
    then have "ln (16::real) = 4 * ln 2" by (simp only: ln_realpow)
    then show ?thesis by (simp add: ln_div)
  qed
  ultimately have "- 2 * ln u \<le> 8 * ln 2" by simp
  also have "\<dots> \<le> 34 / 5" using ln_2_le by simp
  also have "\<dots> \<le> (261 / 100)\<^sup>2" by (simp add: power2_eq_square)
  finally have le: "- 2 * ln u \<le> (261 / 100)\<^sup>2" .
  have "?r \<le> 261 / 100" by (rule real_le_lsqrt [OF _ le]) simp
  moreover have r0: "0 \<le> ?r" using pos le1 by simp
  moreover have "- 1 \<le> ?c" by simp
  ultimately have "- (261 / 100) \<le> ?r * ?c"
  proof -
    have "- ?r \<le> ?r * ?c"
      using r0 \<open>- 1 \<le> ?c\<close> mult_left_mono [of "-1" ?c ?r] by simp
    with \<open>?r \<le> 261 / 100\<close> show ?thesis by simp
  qed
  then have "1.8322 * (- (261 / 100)) \<le> 1.8322 * (?r * ?c)"
    by (intro mult_left_mono) simp_all
  then show "0 \<le> 4.8 + 1.8322 * (?r * ?c)" by simp
qed

text \<open>
  C8, amended. For a first uniform draw \<open>u\<^sub>1\<close> in \<open>[0, 1]\<close> the Big Pipes sampler raises
  \<^verbatim>\<open>ValueError\<close> if \<open>u\<^sub>1 = 0\<close> and otherwise returns, after exactly two draws \<open>u\<^sub>1\<close> and
  \<open>u\<^sub>2\<close> and with no resampling, the one Box-Muller value
  \<open>4.8 + 1.8322 \<cdot> sqrt (- 2 ln u\<^sub>1) \<cdot> cos (2 \<pi> u\<^sub>2)\<close>. The value is not negative
  whenever \<open>u\<^sub>1 \<ge> 1/16\<close>. When nobody is on the Big Pipes Slide and \<^verbatim>\<open>get_next_batch\<close>
  returns a batch that is not empty, \<^verbatim>\<open>try_start_facility\<close> adds one \<^verbatim>\<open>EndFacilityEvent\<close>
  for every member of the batch, at the current time plus that value in minutes, whatever
  its sign; if \<open>u\<^sub>1 = 0\<close> the \<^verbatim>\<open>ValueError\<close> is raised instead.
\<close>

theorem big_pipes_duration_scheduled:
  assumes "0 \<le> us n" and "us n \<le> 1"
  shows "sample_big_pipes_slide_duration us n
           = (if us n = 0 then Inl ValueError
              else Inr (4.8 + 1.8322 * (sqrt (- 2 * ln (us n)) * cos (2 * pi * us (Suc n))),
                        n + 2))
       \<and> (1 / 16 \<le> us n \<longrightarrow>
            0 \<le> 4.8 + 1.8322 * (sqrt (- 2 * ln (us n)) * cos (2 * pi * us (Suc n))))
       \<and> (slide_can_enter f \<and> get_next_batch st t f = (batch, f1) \<and> batch \<noteq> [] \<longrightarrow>
            try_start_big_pipes st t us n f
              = (if us n = 0 then Inl ValueError
                 else Inr (f1\<lparr>users_in_service := users_in_service f1 @ batch\<rparr>,
                           map (\<lambda>visitor.
                                  (t + timedelta_minutes
                                         (4.8 + 1.8322 * (sqrt (- 2 * ln (us n))
                                                           * cos (2 * pi * us (Suc n)))),
                                   visitor, None))
                             batch,
                           n + 2)))"
proof (intro conjI impI)
  show "sample_big_pipes_slide_duration us n
           = (if us n = 0 then Inl ValueError
              else Inr (4.8 + 1.8322 * (sqrt (- 2 * ln (us n)) * cos (2 * pi * us (Suc n))),
                        n + 2))"
    by (rule sample_big_pipes_value [of us n, OF assms])
next
  assume "1 / 16 \<le> us n"
  then show "0 \<le> 4.8 + 1.8322 * (sqrt (- 2 * ln (us n)) * cos (2 * pi * us (Suc n)))"
    using assms(2) by (rule box_muller_nonneg)
next
  assume h: "slide_can_enter f \<and> get_next_batch st t f = (batch, f1) \<and> batch \<noteq> []"
  then show "try_start_big_pipes st t us n f
              = (if us n = 0 then Inl ValueError
                 else Inr (f1\<lparr>users_in_service := users_in_service f1 @ batch\<rparr>,
                           map (\<lambda>visitor.
                                  (t + timedelta_minutes
                                         (4.8 + 1.8322 * (sqrt (- 2 * ln (us n))
                                                           * cos (2 * pi * us (Suc n)))),
                                   visitor, None))
                             batch,
                           n + 2))"
    by (simp add: try_start_big_pipes_def sample_big_pipes_value [of us n, OF assms])
qed

theorem big_pipes_duration_scheduled_witness:
  "0 \<le> mid_draws 0 \<and> mid_draws 0 \<le> 1 \<and> 1 / 16 \<le> mid_draws 0
   \<and> slide_can_enter slide_3_524
   \<and> get_next_batch teens (at_time 10 5) slide_3_524
       = ([4, 1], snd (get_next_batch teens (at_time 10 5) slide_3_524))
   \<and> sample_big_pipes_slide_duration mid_draws 0
       = Inr (4.8 - 1.8322 * sqrt (2 * ln 2), 2)
   \<and> 0 \<le> 4.8 - 1.8322 * sqrt (2 * ln 2)
   \<and> try_start_big_pipes teens (at_time 10 5) mid_draws 0 slide_3_524
       = Inr ((snd (get_next_batch teens (at_time 10 5) slide_3_524))
                \<lparr>users_in_service :=
                   users_in_service (snd (get_next_batch teens (at_time 10 5) slide_3_524))
                     @ [4, 1]\<rparr>,
              [(at_time 10 5 + timedelta_minutes (4.8 - 1.8322 * sqrt (2 * ln 2)), 4, None),
               (at_time 10 5 + timedelta_minutes (4.8 - 1.8322 * sqrt (2 * ln 2)), 1, None)],
              2)"
proof -
  have h: "0 \<le> mid_draws 0" "mid_draws 0 \<le> 1" "1 / 16 \<le> mid_draws 0"
    by (simp_all add: mid_draws_def)
  have c: "slide_can_enter slide_3_524"
    by (simp add: slide_can_enter_def slide_3_524_def slide_524_def Big_Pipes_Slide_init_def)
  have "fst (get_next_batch teens (at_time 10 5) slide_3_524) = [4, 1]"
    by (simp add: scenario_defs)
  then have g: "get_next_batch teens (at_time 10 5) slide_3_524
                  = ([4, 1], snd (get_next_batch teens (at_time 10 5) slide_3_524))"
    by (simp add: prod_eq_iff)
  have l: "ln (1 / 2 :: real) = - ln 2" by (simp add: ln_div)
  have m: "mid_draws 0 = 1 / 2" "mid_draws (Suc 0) = 1 / 2" by (simp_all add: mid_draws_def)
  from big_pipes_duration_scheduled [of mid_draws 0 slide_3_524 teens "at_time 10 5" "[4, 1]"
         "snd (get_next_batch teens (at_time 10 5) slide_3_524)", OF h(1,2)] h c g
  show ?thesis
    by (simp add: m l)
qed

section \<open>The order of events with equal timestamps\<close>

lemmas heap_defs = initial_events_def heappush_def heappop_def siftup_def siftdown.simps
  siftup_loop.simps event_lt_def Let_def at_time_def

text \<open>
  C1. The tie-break of \<^verbatim>\<open>Event.__lt__\<close> is the address of the event object, not an
  insertion number. Two runs that start at 09:00 add the same four events in the same
  order. Where the addresses grow with the insertions, the first event taken is the
  family arrival, added first; where the single-visitor arrival, added third, has got the
  lowest address, it is taken first, before the family arrival with the same timestamp.
\<close>

theorem tie_break_by_object_id:
  "map_option (what \<circ> fst) (heappop (initial_events (at_time 9 0) 1 2 3 4))
     = Some FamilyArrivalEvent
   \<and> map_option (what \<circ> fst) (heappop (initial_events (at_time 9 0) 3 2 1 4))
     = Some SingleGroupArrivalEvent"
  by (simp add: heap_defs)

section \<open>Closing the park\<close>

lemmas park_defs = force_close_park_def park_at_lunch_def Simulation_init_def
  seven_facilities_def Pipes_River_init_def Single_Slide_init_def Big_Pipes_Slide_init_def
  Small_Pipes_Slide_init_def Waves_Pool_init_def Kids_Pool_init_def Snorkel_Tour_init_def
  Facility.truncate_def QueueServer_init_def visitors_def

text \<open>
  C3. \<^verbatim>\<open>force_close_park\<close> walks through \<^verbatim>\<open>self.facilities\<close> only. In the state above it
  completes nobody: the visitor at the restaurant stays uncompleted, and one entity and
  one person have entered while none is completed.
\<close>

theorem force_close_misses_restaurants:
  "force_close_park lunch_guest park_at_lunch = park_at_lunch
   \<and> visitors (queue (restaurants park_at_lunch ! 1)) = [5]
   \<and> total_entities_entered park_at_lunch = 1
   \<and> total_entities_completed (force_close_park lunch_guest park_at_lunch) = 0
   \<and> total_people_entered park_at_lunch = 1
   \<and> total_people_completed (force_close_park lunch_guest park_at_lunch) = 0"
  by (simp add: park_defs Restaurant_init_def add_def record_queue_length_def Let_def)

section \<open>Completion of a split family\<close>

lemmas family_defs = abandonment_handle_def leave_or_next_def choose_facility_def
  leave_after_ride_def complete_visitor_def get_photo_purchase_decision_def
  update_rating_negative_def handle_abandonment_def get_min_age_def get_total_waiting_def
  split_family_def park_with_subgroup_def remove_visitor_def add_def
  record_queue_length_def qsize_def Let_def at_time_def total_seconds_def

text \<open>
  C2. In the state above the abandonment event of subgroup 11 at the Big Pipes Slide
  finds no next facility: the handler books the subgroup itself (its own rating 8.2 and
  its own two people) and leaves the family's \<^verbatim>\<open>active_subgroups_count\<close> at 1. The exit
  block of \<^verbatim>\<open>EndFacilityEvent.handle\<close>, run for subgroup 12 in the same state, lowers the
  count to 0 and books the family with its rating 9 and its five people.
  \<^verbatim>\<open>force_close_park\<close> in the same state books the two subgroups one by one, and not
  the family.
\<close>

theorem abandonment_exit_books_subgroup:
  "active_subgroups_count
     (fst (abandonment_handle (at_time 14 15) 11 2 0 split_family park_with_subgroup) 10) = 1
   \<and> ratings (fst (snd (abandonment_handle (at_time 14 15) 11 2 0 split_family
                          park_with_subgroup))) = [41 / 5]
   \<and> visitors_completed (fst (snd (abandonment_handle (at_time 14 15) 11 2 0 split_family
                                      park_with_subgroup))) = [11]
   \<and> total_people_completed (fst (snd (abandonment_handle (at_time 14 15) 11 2 0
                                          split_family park_with_subgroup))) = 2
   \<and> active_subgroups_count (fst (leave_after_ride 12 split_family park_with_subgroup) 10) = 0
   \<and> ratings (snd (leave_after_ride 12 split_family park_with_subgroup)) = [9]
   \<and> visitors_completed (snd (leave_after_ride 12 split_family park_with_subgroup)) = [10]
   \<and> total_people_completed (snd (leave_after_ride 12 split_family park_with_subgroup)) = 5
   \<and> visitors_completed (force_close_park split_family park_with_subgroup) = [11, 12]
   \<and> total_entities_completed (force_close_park split_family park_with_subgroup) = 2
   \<and> total_people_completed (force_close_park split_family park_with_subgroup) = 4
   \<and> total_entities_entered (force_close_park split_family park_with_subgroup) = 1
   \<and> total_people_entered (force_close_park split_family park_with_subgroup) = 5"
  by (simp add: family_defs park_defs)

section \<open>The capacity of a facility\<close>

text \<open>
  What the handlers keep: on the two pools the people in service fit the capacity, on the
  two pipes slides they fit the batch size, on the Pipes River the occupied tubes never
  exceed the tubes there are, and a tour of the Snorkel Tour never has more people than
  \<^verbatim>\<open>tour_capacity\<close>.
\<close>

lemma headcount_Nil [simp]: "headcount st [] = 0"
  by (simp add: headcount_def)

lemma headcount_remove1: "headcount st (remove1 v vs) \<le> headcount st vs"
  by (induction vs) (auto simp: headcount_def)

lemma headcount_cong:
  "\<forall>v \<in> set vs. group_size (st' v) = group_size (st v) \<Longrightarrow> headcount st' vs = headcount st vs"
  by (simp add: headcount_def cong: map_cong)

lemma end_of_day_fields [simp]:
  "users_in_service (end_of_day t f) = users_in_service f"
  "capacity (end_of_day t f) = capacity f"
  by (simp_all add: end_of_day_def)

lemma tube_size_end_of_day [simp]: "tube_size (end_of_day t f) = tube_size f"
  by (simp add: end_of_day_def)

lemma tubes_end_of_day [simp]:
  "total_tubes (end_of_day t f) = total_tubes f"
  "occupied_tubes (end_of_day t f) = occupied_tubes f"
  by (simp_all add: end_of_day_def)

lemma enter_queue_fields [simp]:
  "users_in_service (enter_queue st v t f) = users_in_service f"
  "capacity (enter_queue st v t f) = capacity f"
  by (simp_all add: enter_queue_def)

lemma tube_size_enter_queue [simp]: "tube_size (enter_queue st v t f) = tube_size f"
  by (simp add: enter_queue_def)

lemma leave_service_fields [simp]:
  "capacity (leave_service v f) = capacity f"
  "users_in_service (leave_service v f) = (if v \<in> set (users_in_service f) then remove1 v (users_in_service f) else users_in_service f)"
  by (simp_all add: leave_service_def)

lemma abandon_queue_fields [simp]:
  "users_in_service (abandon_queue v t f) = users_in_service f"
  "capacity (abandon_queue v t f) = capacity f"
  by (simp_all add: abandon_queue_def Let_def)

lemma headcount_leave_service:
  "headcount st (users_in_service (leave_service v f)) \<le> headcount st (users_in_service f)"
  by (simp add: headcount_remove1)

text \<open>Wave Pool and Kids Pool.\<close>

lemma first_fitting_fits:
  "first_fitting st f i vs = Some (j, v) \<Longrightarrow> pool_can_enter st (group_size (st v)) f"
  by (induction vs arbitrary: i) (auto split: if_splits)

lemma pool_pass_inv:
  assumes "pool_pass st t f = (f1, r)"
    and "headcount st (users_in_service f) \<le> capacity f"
  shows "capacity f1 = capacity f \<and> headcount st (users_in_service f1) \<le> capacity f1"
  using assms
  by (auto simp: pool_pass_def pool_can_enter_def headcount_append headcount_def
           split: option.splits dest!: first_fitting_fits)

lemma pool_loop_inv:
  assumes "pool_loop st t f admitted = (f1, admitted1)"
    and "headcount st (users_in_service f) \<le> capacity f"
  shows "capacity f1 = capacity f \<and> headcount st (users_in_service f1) \<le> capacity f1"
  using assms
proof (induction st t f admitted rule: pool_loop.induct)
  case (1 st t f admitted)
  show ?case
  proof (cases "0 < qsize (queue_express f) \<or> 0 < qsize (queue_regular f)")
    case False
    with "1.prems" show ?thesis by (simp add: pool_loop.simps [of st t f])
  next
    case True
    obtain f2 r where pp: "pool_pass st t f = (f2, r)" by (cases "pool_pass st t f")
    from pool_pass_inv [OF pp "1.prems"(2)]
    have inv2: "capacity f2 = capacity f" "headcount st (users_in_service f2) \<le> capacity f2"
      by simp_all
    show ?thesis
    proof (cases r)
      case None
      with "1.prems"(1) True pp inv2 show ?thesis by (simp add: pool_loop.simps [of st t f])
    next
      case (Some visitor)
      with "1.prems"(1) True pp
      have "pool_loop st t f2 (admitted @ [visitor]) = (f1, admitted1)"
        by (simp add: pool_loop.simps [of st t f])
      from "1.IH" [OF True pp [symmetric] Some this inv2(2)] inv2(1) show ?thesis by simp
    qed
  qed
qed

lemma pool_step_inv:
  assumes "pool_step s s'"
    and "headcount (fst s) (users_in_service (snd s)) \<le> capacity (snd s)"
  shows "capacity (snd s') = capacity (snd s)
       \<and> headcount (fst s') (users_in_service (snd s')) \<le> capacity (snd s')"
  using assms
proof (cases rule: pool_step.cases)
  case (arrive st f t visitor)
  obtain f1 admitted where l: "pool_loop st t (enter_queue st visitor t f) [] = (f1, admitted)"
    by (cases "pool_loop st t (enter_queue st visitor t f) []")
  from assms(2) arrive have "headcount st (users_in_service (enter_queue st visitor t f))
      \<le> capacity (enter_queue st visitor t f)" by simp
  from pool_loop_inv [OF l this] arrive l show ?thesis
    by (simp add: try_start_pool_def)
next
  case (finish st f visitor)
  with assms(2) headcount_remove1 [of st visitor "users_in_service f"] show ?thesis
    by auto
next
  case (abandon st f visitor t)
  with assms(2) show ?thesis by simp
next
  case (end_of_day st f t)
  with assms(2) show ?thesis by simp
next
  case (elsewhere f st' st)
  from elsewhere(3) have "headcount st' (users_in_service f) = headcount st (users_in_service f)"
    by (rule headcount_cong)
  with assms(2) elsewhere show ?thesis by simp
qed

lemma pool_reachable_inv:
  assumes "reachable (st0, f0) pool_step s" and "users_in_service f0 = []"
  shows "capacity (snd s) = capacity f0
       \<and> headcount (fst s) (users_in_service (snd s)) \<le> capacity (snd s)"
  using assms
proof (induction rule: reachable.induct)
  case initial
  then show ?case by (simp add: headcount_def)
next
  case (after s s')
  with pool_step_inv [of s s'] show ?case by simp
qed

text \<open>Big and Small Pipes Slide.\<close>

lemma get_next_batch_headcount:
  assumes "get_next_batch st t f = (batch, f')"
  shows "users_in_service f' = users_in_service f \<and> tube_size f' = tube_size f
       \<and> (batch = [] \<or> headcount st batch = tube_size f)"
proof (cases "total_in_queue st f < tube_size f")
  case True
  with assms show ?thesis by (simp add: get_next_batch_def)
next
  case enough: False
  obtain r1 qe temp_e batch1 bs1
    where s1: "fill_batch st (tube_size f) t (queue_express f) [] [] 0 = (r1, qe, temp_e, batch1, bs1)"
    by (metis prod_cases5)
  obtain r2 qr temp_r batch2 bs2
    where s2: "fill_batch st (tube_size f) t (queue_regular f) [] batch1 bs1
               = (r2, qr, temp_r, batch2, bs2)"
    by (metis prod_cases5)
  from fill_batch_props [OF s1]
  obtain i where "batch1 = [] @ map fst (take i (server_queue (queue_express f)))"
      "bs1 = 0 + headcount st (map fst (take i (server_queue (queue_express f))))"
      and r1: "r1 \<longrightarrow> bs1 = tube_size f"
    by blast
  then have 1: "headcount st batch1 = bs1" by simp
  from fill_batch_props [OF s2]
  obtain j where "batch2 = batch1 @ map fst (take j (server_queue (queue_regular f)))"
      "bs2 = bs1 + headcount st (map fst (take j (server_queue (queue_regular f))))"
      and r2: "r2 \<longrightarrow> bs2 = tube_size f"
    by blast
  with 1 have 2: "headcount st batch2 = bs2" by (simp add: headcount_append)
  from assms enough s1 s2 1 2 r1 r2 show ?thesis
    by (auto simp: get_next_batch_def split: if_splits)
qed

lemma slide_step_inv:
  assumes "slide_step s s'"
    and "headcount (fst s) (users_in_service (snd s)) \<le> tube_size (snd s)"
  shows "tube_size (snd s') = tube_size (snd s)
       \<and> headcount (fst s') (users_in_service (snd s')) \<le> tube_size (snd s')"
  using assms
proof (cases rule: slide_step.cases)
  case (arrive st f t duration visitor)
  let ?f0 = "enter_queue st visitor t f"
  obtain batch f1 where g: "get_next_batch st t ?f0 = (batch, f1)"
    by (cases "get_next_batch st t ?f0")
  from get_next_batch_headcount [OF g]
  have b: "users_in_service f1 = users_in_service f" "tube_size f1 = tube_size f"
      "batch = [] \<or> headcount st batch = tube_size f"
    by simp_all
  have e: "tube_size ?f0 = tube_size f" by simp
  show ?thesis
  proof (cases "slide_can_enter ?f0")
    case False
    with arrive assms(2) e show ?thesis by (simp add: try_start_slide_def)
  next
    case True
    then have "users_in_service f = []" by (simp add: slide_can_enter_def)
    with arrive assms(2) True g b e show ?thesis
      by (auto simp: try_start_slide_def headcount_def)
  qed
next
  case (finish st f visitor)
  with assms(2) headcount_remove1 [of st visitor "users_in_service f"] show ?thesis
    by (auto simp: leave_service_def)
next
  case (abandon st f visitor t)
  with assms(2) show ?thesis by (simp add: abandon_queue_def Let_def)
next
  case (end_of_day st f t)
  with assms(2) show ?thesis by simp
next
  case (elsewhere f st' st)
  from elsewhere(3) have "headcount st' (users_in_service f) = headcount st (users_in_service f)"
    by (rule headcount_cong)
  with assms(2) elsewhere show ?thesis by simp
qed

lemma slide_reachable_inv:
  assumes "reachable (st0, f0) slide_step s" and "users_in_service f0 = []"
  shows "tube_size (snd s) = tube_size f0
       \<and> headcount (fst s) (users_in_service (snd s)) \<le> tube_size (snd s)"
  using assms
proof (induction rule: reachable.induct)
  case initial
  then show ?case by (simp add: headcount_def)
next
  case (after s s')
  with slide_step_inv [of s s'] show ?case by simp
qed

text \<open>Pipes River.\<close>

lemma river_step_inv:
  assumes "river_step st t f = (st1, f1, entering, progress)"
    and "occupied_tubes f \<le> total_tubes f"
  shows "total_tubes f1 = total_tubes f \<and> occupied_tubes f1 \<le> total_tubes f1"
  using assms
  by (auto simp: river_step_def enter_even_def pair_same_queue_def Let_def
           split: list.splits if_splits option.splits prod.splits)

lemma process_entry_loop_inv:
  assumes "process_entry_loop st t f entering = (st1, f1, entering1)"
    and "occupied_tubes f \<le> total_tubes f"
  shows "total_tubes f1 = total_tubes f \<and> occupied_tubes f1 \<le> total_tubes f1"
  using assms
proof (induction st t f entering rule: process_entry_loop.induct)
  case (1 st t f entering)
  show ?case
  proof (cases "occupied_tubes f < total_tubes f")
    case False
    with "1.prems" show ?thesis by (simp add: process_entry_loop.simps [of st t f])
  next
    case True
    obtain st2 f2 new progress where rs: "river_step st t f = (st2, f2, new, progress)"
      by (metis prod_cases4)
    from river_step_inv [OF rs "1.prems"(2)]
    have inv2: "total_tubes f2 = total_tubes f" "occupied_tubes f2 \<le> total_tubes f2"
      by simp_all
    show ?thesis
    proof (cases progress)
      case False
      with "1.prems"(1) True rs inv2 show ?thesis
        by (simp add: process_entry_loop.simps [of st t f])
    next
      case p: True
      with "1.prems"(1) True rs
      have "process_entry_loop st2 t f2 (entering @ new) = (st1, f1, entering1)"
        by (simp add: process_entry_loop.simps [of st t f])
      from "1.IH" [OF True rs [symmetric] refl refl p this inv2(2)] inv2(1)
      show ?thesis by simp
    qed
  qed
qed

lemma tubes_for_nonneg: "0 \<le> tubes_for f n"
proof -
  have "(0::rat) \<le> of_nat n / of_nat (people_per_tube f)" by simp
  then have "- 1 < (of_nat n :: rat) / of_nat (people_per_tube f)" by linarith
  then show ?thesis by (simp add: tubes_for_def)
qed

lemma release_tubes_inv:
  assumes "occupied_tubes f \<le> total_tubes f" and "0 \<le> total_tubes f"
  shows "total_tubes (release_tubes st v f) = total_tubes f
       \<and> occupied_tubes (release_tubes st v f) \<le> total_tubes f"
  using assms tubes_for_nonneg [of f "group_size (st v)"]
    tubes_for_nonneg [of f "group_size (st v) + group_size (st (the (tube_partner (st v))))"]
  by (auto simp: release_tubes_def Let_def split: option.splits)

lemma river_move_inv:
  assumes "river_move s s'"
    and "occupied_tubes (snd s) \<le> total_tubes (snd s)" and "0 \<le> total_tubes (snd s)"
  shows "total_tubes (snd s') = total_tubes (snd s)
       \<and> occupied_tubes (snd s') \<le> total_tubes (snd s')"
  using assms
proof (cases rule: river_move.cases)
  case (arrive st t visitor f st1 f1 entering)
  obtain st2 f2 e2 where pe: "process_entry_loop st t (enter_queue st visitor t f) [] = (st2, f2, e2)"
    by (metis prod_cases3)
  have "occupied_tubes (enter_queue st visitor t f) \<le> total_tubes (enter_queue st visitor t f)"
    using assms(2) arrive by (simp add: enter_queue_def)
  from process_entry_loop_inv [OF pe this] arrive pe show ?thesis
    by (auto simp: try_start_river_def process_entry_def enter_queue_def)
next
  case (finish st f visitor)
  with assms(2,3) release_tubes_inv [of "f\<lparr>users_in_service := remove1 visitor (users_in_service f)\<rparr>" st visitor]
    release_tubes_inv [of f st visitor]
  show ?thesis by (auto simp: end_facility_river_def)
next
  case (abandon st f visitor t)
  with assms(2) show ?thesis by (simp add: abandon_queue_def Let_def)
next
  case (end_of_day st f t)
  with assms(2) show ?thesis by simp
next
  case (elsewhere st f st')
  with assms(2) show ?thesis by simp
qed

lemma river_reachable_inv:
  assumes "reachable (st0, Pipes_River_init) river_move s"
  shows "total_tubes (snd s) = 60 \<and> occupied_tubes (snd s) \<le> 60"
  using assms
proof (induction rule: reachable.induct)
  case initial
  then show ?case by (simp add: Pipes_River_init_def)
next
  case (after s s')
  with river_move_inv [of s s'] show ?case by simp
qed

text \<open>Snorkel Tour: the size of one tour.\<close>

lemma fill_tour_inv:
  assumes "fill_tour st t f tour_group tour_size = (f1, tour_group1, tour_size1)"
    and "tour_size = headcount st tour_group" and "tour_size \<le> tour_capacity f"
  shows "tour_size1 = headcount st tour_group1 \<and> tour_size1 \<le> tour_capacity f"
  using assms
proof (induction st t f tour_group tour_size rule: fill_tour.induct)
  case (1 st t f tour_group tour_size)
  let ?go = "tour_size < tour_capacity f
               \<and> (0 < qsize (queue_express f) \<or> 0 < qsize (queue_regular f))"
  show ?case
  proof (cases ?go)
    case False
    then have "fill_tour st t f tour_group tour_size = (f, tour_group, tour_size)"
      by (subst fill_tour.simps) (simp only: if_False)
    with "1.prems" show ?thesis by simp
  next
    case go: True
    show ?thesis
    proof (cases "server_queue (queue_express f)")
      case (Cons e rest)
      obtain v a where e: "e = (v, a)" by (cases e)
      note qe = Cons [unfolded e]
      show ?thesis
      proof (cases "tour_size + group_size (st v) \<le> tour_capacity f")
        case False
        with "1.prems" go qe show ?thesis by (auto simp: fill_tour.simps [of st t f])
      next
        case fits: True
        with "1.prems"(1) go qe
        have rec: "fill_tour st t (f\<lparr>queue_express := snd (pop t (queue_express f))\<rparr>)
                     (tour_group @ [v]) (tour_size + group_size (st v))
                   = (f1, tour_group1, tour_size1)"
          by (simp add: fill_tour.simps [of st t f])
        have "tour_size + group_size (st v) = headcount st (tour_group @ [v])"
          using "1.prems"(2) by (simp add: headcount_def)
        from "1.IH"(2) [OF go Cons e [symmetric] fits rec this] fits show ?thesis by simp
      qed
    next
      case Nil
      show ?thesis
      proof (cases "server_queue (queue_regular f)")
        case Nil2: Nil
        with "1.prems" go Nil show ?thesis by (auto simp: fill_tour.simps [of st t f])
      next
        case (Cons e rest)
        obtain v a where e: "e = (v, a)" by (cases e)
        note qr = Cons [unfolded e]
        show ?thesis
        proof (cases "tour_size + group_size (st v) \<le> tour_capacity f")
          case False
          with "1.prems" go Nil qr show ?thesis by (auto simp: fill_tour.simps [of st t f])
        next
          case fits: True
          with "1.prems"(1) go Nil qr
          have rec: "fill_tour st t (f\<lparr>queue_regular := snd (pop t (queue_regular f))\<rparr>)
                       (tour_group @ [v]) (tour_size + group_size (st v))
                     = (f1, tour_group1, tour_size1)"
            by (simp add: fill_tour.simps [of st t f])
          have "tour_size + group_size (st v) = headcount st (tour_group @ [v])"
            using "1.prems"(2) by (simp add: headcount_def)
          from "1.IH"(1) [OF go Nil Cons e [symmetric] fits rec this] fits show ?thesis
            by simp
        qed
      qed
    qed
  qed
qed

lemma try_start_snorkel_tour_size:
  "headcount st (map (fst \<circ> snd) (snd (try_start_snorkel st t duration f))) \<le> tour_capacity f"
proof -
  obtain f1 tour_group tour_size where ft: "fill_tour st t f [] 0 = (f1, tour_group, tour_size)"
    by (metis prod_cases3)
  from fill_tour_inv [OF ft] have "headcount st tour_group \<le> tour_capacity f" by simp
  with ft show ?thesis
    by (auto simp: try_start_snorkel_def Let_def comp_def split: option.splits)
qed

lemma fill_tour_capacity:
  assumes "fill_tour st t f tour_group tour_size = (f1, tour_group1, tour_size1)"
  shows "tour_capacity f1 = tour_capacity f"
  using assms
proof (induction st t f tour_group tour_size rule: fill_tour.induct)
  case (1 st t f tour_group tour_size)
  let ?go = "tour_size < tour_capacity f
               \<and> (0 < qsize (queue_express f) \<or> 0 < qsize (queue_regular f))"
  show ?case
  proof (cases ?go)
    case False
    then have "fill_tour st t f tour_group tour_size = (f, tour_group, tour_size)"
      by (subst fill_tour.simps) (simp only: if_False)
    with "1.prems" show ?thesis by simp
  next
    case go: True
    show ?thesis
    proof (cases "server_queue (queue_express f)")
      case (Cons e rest)
      obtain v a where e: "e = (v, a)" by (cases e)
      note qe = Cons [unfolded e]
      show ?thesis
      proof (cases "tour_size + group_size (st v) \<le> tour_capacity f")
        case False
        with "1.prems" go qe show ?thesis by (auto simp: fill_tour.simps [of st t f])
      next
        case fits: True
        with "1.prems"(1) go qe
        have rec: "fill_tour st t (f\<lparr>queue_express := snd (pop t (queue_express f))\<rparr>)
                     (tour_group @ [v]) (tour_size + group_size (st v))
                   = (f1, tour_group1, tour_size1)"
          by (simp add: fill_tour.simps [of st t f])
        from "1.IH"(2) [OF go Cons e [symmetric] fits rec] show ?thesis by simp
      qed
    next
      case Nil
      show ?thesis
      proof (cases "server_queue (queue_regular f)")
        case Nil2: Nil
        with "1.prems" go Nil show ?thesis by (auto simp: fill_tour.simps [of st t f])
      next
        case (Cons e rest)
        obtain v a where e: "e = (v, a)" by (cases e)
        note qr = Cons [unfolded e]
        show ?thesis
        proof (cases "tour_size + group_size (st v) \<le> tour_capacity f")
          case False
          with "1.prems" go Nil qr show ?thesis by (auto simp: fill_tour.simps [of st t f])
        next
          case fits: True
          with "1.prems"(1) go Nil qr
          have rec: "fill_tour st t (f\<lparr>queue_regular := snd (pop t (queue_regular f))\<rparr>)
                       (tour_group @ [v]) (tour_size + group_size (st v))
                     = (f1, tour_group1, tour_size1)"
            by (simp add: fill_tour.simps [of st t f])
          from "1.IH"(1) [OF go Nil Cons e [symmetric] fits rec] show ?thesis by simp
        qed
      qed
    qed
  qed
qed

lemma tour_capacity_try_start_snorkel:
  "tour_capacity (fst (try_start_snorkel st t duration f)) = tour_capacity f"
proof -
  obtain f1 tour_group tour_size where ft: "fill_tour st t f [] 0 = (f1, tour_group, tour_size)"
    by (metis prod_cases3)
  from fill_tour_capacity [OF ft] ft show ?thesis
    by (auto simp: try_start_snorkel_def Let_def start_tour_def split: option.splits)
qed

lemma tour_capacity_fields:
  "tour_capacity (enter_queue st v t f) = tour_capacity f"
  "tour_capacity (leave_service v f) = tour_capacity f"
  "tour_capacity (abandon_queue v t f) = tour_capacity f"
  "tour_capacity (end_of_day t f) = tour_capacity f"
  "tour_capacity (finish_tour i t f) = tour_capacity f"
  "tour_capacity (snd (finish_break i t f)) = tour_capacity f"
  "tour_capacity (finish_lunch i f) = tour_capacity f"
  by (simp_all add: enter_queue_def leave_service_def abandon_queue_def end_of_day_def
        finish_tour_def finish_break_def finish_lunch_def Let_def)

lemma snorkel_move_inv:
  assumes "snorkel_move s s'"
  shows "tour_capacity (snd s') = tour_capacity (snd s)"
  using assms
  by (cases rule: snorkel_move.cases)
     (simp_all add: tour_capacity_fields tour_capacity_try_start_snorkel)

lemma snorkel_reachable_inv:
  assumes "reachable (st0, Snorkel_Tour_init) snorkel_move s"
  shows "tour_capacity (snd s) = 30"
  using assms
proof (induction rule: reachable.induct)
  case initial
  then show ?case by (simp add: Snorkel_Tour_init_def)
next
  case (after s s')
  with snorkel_move_inv [of s s'] show ?case by simp
qed

text \<open>The handlers on the Snorkel Tour are sequences of steps.\<close>

lemma snorkel_handlers_reachable:
  assumes "reachable i snorkel_move (st, f)"
  shows "reachable i snorkel_move (st, snorkel_arrive st visitor t duration f)"
    and "reachable i snorkel_move (st, snorkel_end visitor instructor_idx t f)"
    and "reachable i snorkel_move (st, snorkel_break_end st instructor_idx t duration f)"
    and "reachable i snorkel_move (st, snorkel_lunch_end st instructor_idx t duration f)"
proof -
  show "reachable i snorkel_move (st, snorkel_arrive st visitor t duration f)"
    unfolding snorkel_arrive_def
    by (rule reachable.after [OF reachable.after [OF assms snorkel_move.enqueue]
          snorkel_move.start])
  show "reachable i snorkel_move (st, snorkel_end visitor instructor_idx t f)"
    unfolding snorkel_end_def
    by (rule reachable.after [OF reachable.after [OF assms snorkel_move.leave]
          snorkel_move.tour_end])
  have b: "reachable i snorkel_move (st, snd (finish_break instructor_idx t f))"
    by (rule reachable.after [OF assms snorkel_move.break_end])
  show "reachable i snorkel_move (st, snorkel_break_end st instructor_idx t duration f)"
  proof (cases "fst (finish_break instructor_idx t f)")
    case True
    with b show ?thesis by (simp add: snorkel_break_end_def case_prod_beta)
  next
    case False
    with reachable.after [OF b snorkel_move.start] show ?thesis
      by (simp add: snorkel_break_end_def case_prod_beta)
  qed
  show "reachable i snorkel_move (st, snorkel_lunch_end st instructor_idx t duration f)"
    unfolding snorkel_lunch_end_def
    by (rule reachable.after [OF reachable.after [OF assms snorkel_move.lunch_end]
          snorkel_move.start])
qed

lemmas run_defs = single_slide_run_def try_start_single_def single_loop.simps
  get_available_slide_def slide_minutes_def second_def hour_def minute_def record_entry_def
  enter_queue_def teens_def Single_Slide_init_def add_def QueueServer_init_def
  record_queue_length_def qsize_def pop_def Let_def at_time_def total_seconds_def
  headcount_def snorkel_run_def snorkel_arrive_def snorkel_end_def snorkel_break_end_def
  snorkel_guests_def try_start_snorkel_def get_available_instructor_def current_minutes_def
  Snorkel_Tour_init_def replicate_2 fill_tour.simps start_tour_def finish_tour_def
  finish_break_def leave_service_def

lemma single_part: "headcount teens (users_in_service single_slide_run) = 7
   \<and> capacity single_slide_run = 6"
  by (simp add: run_defs)

lemma snorkel_part: "headcount snorkel_guests (users_in_service snorkel_run) = 36
   \<and> capacity snorkel_run = 30"
  by (simp add: run_defs)

lemma snorkel_run_reachable:
  "reachable (snorkel_guests, Snorkel_Tour_init) snorkel_move (snorkel_guests, snorkel_run)"
  unfolding snorkel_run_def
  by (intro snorkel_handlers_reachable reachable.initial)

lemma snorkel_queued_tour:
  "map (fst \<circ> snd) (snd (try_start_snorkel teens (at_time 10 0) 30 snorkel_queued)) = [1]"
  by (simp add: snorkel_queued_def run_defs)

lemmas after_defs = wave_pool_after_def kids_pool_after_def big_pipes_after_def
  small_pipes_after_def river_after_def try_start_pool_def pool_loop.simps pool_pass_def
  pool_can_enter_def take_out_def try_start_slide_def slide_can_enter_def
  try_start_river_def process_entry_def process_entry_loop.simps river_step_def
  enter_even_def enter_queue_def teens_def Waves_Pool_init_def Kids_Pool_init_def
  Big_Pipes_Slide_init_def Small_Pipes_Slide_init_def Pipes_River_init_def
  get_next_batch_def total_in_queue_def fill_batch.simps rollback_def insert_at_def
  add_def QueueServer_init_def record_queue_length_def qsize_def pop_def visitors_def
  headcount_def Let_def at_time_def total_seconds_def

lemma after_values:
  "users_in_service wave_pool_after = [1]"
  "users_in_service kids_pool_after = [1]"
  "users_in_service big_pipes_after = [1, 4]"
  "users_in_service small_pipes_after = [4]"
  "users_in_service (snd river_after) = [2]"
  "occupied_tubes (snd river_after) = 1"
  "fst river_after = teens"
  by (simp_all add: after_defs)

text \<open>
  C4, as stated, fails on the Single Slide and on the Snorkel Tour. After the arrivals of
  a group of 5 at 10:00 and of a group of 2 at 10:01 the Single Slide (capacity 6) has 7
  people in service: each group gets a slide of its own and \<^verbatim>\<open>can_enter\<close> is never
  asked. On the Snorkel Tour (capacity 30) instructor 1 is on a 60 minute tour with one
  group of 6 when instructor 0 comes back from the break at 11:00 and takes the five
  waiting groups, 30 people, on a second tour: 36 people are in service.
\<close>

theorem capacity_exceeded:
  "capacity single_slide_run < headcount teens (users_in_service single_slide_run)
   \<and> capacity snorkel_run < headcount snorkel_guests (users_in_service snorkel_run)"
  by (simp add: single_part snorkel_part)

text \<open>
  C4, amended. In every state that a run reaches from the initial facility, the people in
  service in the Wave Pool and in the Kids Pool never exceed the capacity (the capacity
  given, and 30), the people in service on the Big and the Small Pipes Slide never exceed
  the batch size (8 and 3), and the occupied tubes of the Pipes River never exceed 60. On
  the Snorkel Tour \<^verbatim>\<open>tour_capacity\<close> stays 30 and every tour that \<^verbatim>\<open>try_start_facility\<close>
  starts has at most 30 people.
\<close>

theorem capacity_bounds:
  "(reachable (st_init, Waves_Pool_init c) pool_step (st, w)
      \<longrightarrow> headcount st (users_in_service w) \<le> c)
   \<and> (reachable (st_init, Kids_Pool_init) pool_step (st, k)
      \<longrightarrow> headcount st (users_in_service k) \<le> 30)
   \<and> (reachable (st_init, Big_Pipes_Slide_init) slide_step (st, b)
      \<longrightarrow> headcount st (users_in_service b) \<le> 8)
   \<and> (reachable (st_init, Small_Pipes_Slide_init) slide_step (st, s)
      \<longrightarrow> headcount st (users_in_service s) \<le> 3)
   \<and> (reachable (st_init, Pipes_River_init) river_move (st, r)
      \<longrightarrow> occupied_tubes r \<le> 60)
   \<and> (reachable (st_init, Snorkel_Tour_init) snorkel_move (st, f)
      \<longrightarrow> tour_capacity f = 30
          \<and> headcount st (map (fst \<circ> snd) (snd (try_start_snorkel st t duration f))) \<le> 30)"
proof (intro conjI impI)
  assume "reachable (st_init, Waves_Pool_init c) pool_step (st, w)"
  from pool_reachable_inv [OF this] show "headcount st (users_in_service w) \<le> c"
    by (simp add: Waves_Pool_init_def)
next
  assume "reachable (st_init, Kids_Pool_init) pool_step (st, k)"
  from pool_reachable_inv [OF this] show "headcount st (users_in_service k) \<le> 30"
    by (simp add: Kids_Pool_init_def)
next
  assume "reachable (st_init, Big_Pipes_Slide_init) slide_step (st, b)"
  from slide_reachable_inv [OF this] show "headcount st (users_in_service b) \<le> 8"
    by (simp add: Big_Pipes_Slide_init_def)
next
  assume "reachable (st_init, Small_Pipes_Slide_init) slide_step (st, s)"
  from slide_reachable_inv [OF this] show "headcount st (users_in_service s) \<le> 3"
    by (simp add: Small_Pipes_Slide_init_def)
next
  assume "reachable (st_init, Pipes_River_init) river_move (st, r)"
  from river_reachable_inv [OF this] show "occupied_tubes r \<le> 60" by simp
next
  assume "reachable (st_init, Snorkel_Tour_init) snorkel_move (st, f)"
  from snorkel_reachable_inv [OF this] show "tour_capacity f = 30" by simp
next
  assume "reachable (st_init, Snorkel_Tour_init) snorkel_move (st, f)"
  from snorkel_reachable_inv [OF this] have "tour_capacity f = 30" by simp
  with try_start_snorkel_tour_size [of st t duration f]
  show "headcount st (map (fst \<circ> snd) (snd (try_start_snorkel st t duration f))) \<le> 30"
    by simp
qed

theorem capacity_bounds_witness:
  "reachable (teens, Waves_Pool_init 80) pool_step (teens, wave_pool_after)
   \<and> headcount teens (users_in_service wave_pool_after) \<le> 80
   \<and> reachable (teens, Kids_Pool_init) pool_step (teens, kids_pool_after)
   \<and> headcount teens (users_in_service kids_pool_after) \<le> 30
   \<and> reachable (teens, Big_Pipes_Slide_init) slide_step (teens, big_pipes_after)
   \<and> headcount teens (users_in_service big_pipes_after) \<le> 8
   \<and> reachable (teens, Small_Pipes_Slide_init) slide_step (teens, small_pipes_after)
   \<and> headcount teens (users_in_service small_pipes_after) \<le> 3
   \<and> reachable (teens, Pipes_River_init) river_move (teens, snd river_after)
   \<and> occupied_tubes (snd river_after) \<le> 60
   \<and> reachable (teens, Snorkel_Tour_init) snorkel_move (teens, snorkel_queued)
   \<and> tour_capacity snorkel_queued = 30
   \<and> map (fst \<circ> snd) (snd (try_start_snorkel teens (at_time 10 0) 30 snorkel_queued)) = [1]
   \<and> headcount teens
        (map (fst \<circ> snd) (snd (try_start_snorkel teens (at_time 10 0) 30 snorkel_queued)))
       \<le> 30"
proof -
  have w: "reachable (teens, Waves_Pool_init 80) pool_step (teens, wave_pool_after)"
    unfolding wave_pool_after_def
    by (rule reachable.after, rule reachable.initial, rule pool_step.arrive)
  have k: "reachable (teens, Kids_Pool_init) pool_step (teens, kids_pool_after)"
    unfolding kids_pool_after_def
    by (rule reachable.after, rule reachable.initial, rule pool_step.arrive)
  have b: "reachable (teens, Big_Pipes_Slide_init) slide_step (teens, big_pipes_after)"
    unfolding big_pipes_after_def
    by (rule reachable.after, rule reachable.after, rule reachable.initial,
        rule slide_step.arrive, rule slide_step.arrive)
  have s: "reachable (teens, Small_Pipes_Slide_init) slide_step (teens, small_pipes_after)"
    unfolding small_pipes_after_def
    by (rule reachable.after, rule reachable.initial, rule slide_step.arrive)
  have "river_move (teens, Pipes_River_init) (fst river_after, snd river_after)"
    unfolding river_after_def
    by (rule river_move.arrive [of teens "at_time 10 0" 2 _ _ _
          "snd (snd (try_start_river teens (at_time 10 0)
                       (enter_queue teens 2 (at_time 10 0) Pipes_River_init)))"])
       (simp add: case_prod_beta)
  then have r: "reachable (teens, Pipes_River_init) river_move (teens, snd river_after)"
    using reachable.after [OF reachable.initial] by (simp add: after_values)
  have q: "reachable (teens, Snorkel_Tour_init) snorkel_move (teens, snorkel_queued)"
    unfolding snorkel_queued_def
    by (rule reachable.after, rule reachable.initial, rule snorkel_move.enqueue)
  from capacity_bounds [of teens 80 teens wave_pool_after kids_pool_after big_pipes_after
         small_pipes_after "snd river_after" snorkel_queued "at_time 10 0" 30]
       w k b s r q snorkel_queued_tour
  show ?thesis by blast
qed

end
